theory Spec2Isabelle
  imports Complex_Main "HOL-Library.AList"
begin

section \<open>Data model\<close>

text \<open>
  The repository holds two variants of one script: \<^verbatim>\<open>index.js\<close> and a time-boxed variant
  (ledger as a module-level variable, signal handlers, an allowed-hours window). Definitions
  that belong to the time-boxed variant only carry the suffix \<open>_tb\<close>; code that is the same
  text in both files is embedded once.

  Conventions of the embedding:
  \<^item> JavaScript numbers are doubles. They are \<open>int\<close> where the code only ever makes
    integers of them (doubles hold integers exactly below \<open>2^53\<close>) and \<open>real\<close> otherwise, and
    then every arithmetic operation is followed by the rounding to the nearest double;
    \<^verbatim>\<open>Math.random()\<close> is a real \<open>u\<close> that the caller supplies, a double of \<open>[0, 1)\<close>, so
    \<open>0 \<le> u \<le> 1 - 2^-53\<close>;
  \<^item> \<^verbatim>\<open>undefined\<close> is \<open>None\<close>;
  \<^item> a rejected promise or a thrown exception is a value \<open>Inl e\<close> (or \<open>Some e\<close> where the
    call returns nothing), so every \<^verbatim>\<open>try\<close>/\<^verbatim>\<open>catch\<close> of the source is a case distinction;
  \<^item> everything the script does to the outside (console, timers, page, file system,
    process exit) is appended, in order, to the \<open>trace\<close> of the state;
  \<^item> everything the outside answers (what the page does, the clock, the random source)
    is an observation passed in, one record per loop iteration;
  \<^item> the calls for which no observation is passed in are taken to succeed: the console, the
    timers and \<^verbatim>\<open>browser.close()\<close>; what a promise rejects with, and what a call throws, is an
    object with a \<^verbatim>\<open>message\<close>.
\<close>

datatype error = Error (message: string)

text \<open>One vote record: \<^verbatim>\<open>{ buttonId, timestamp }\<close>.\<close>

record vote =
  buttonId :: "string option"
  timestamp :: string

text \<open>The value of a property of the object that \<^verbatim>\<open>saveVoteLog\<close> counts in: a number, or
  something that is no number (a function or an object that every object inherits, or the
  string that \<^verbatim>\<open>+ 1\<close> makes of one).\<close>

datatype js_prop = Number nat | Other

text \<open>\<^verbatim>\<open>voteLog.statistics = { totalVotes, votesByCandidate }\<close>; the object \<open>votesByCandidate\<close>
  is an association list of its own properties (the order in which JavaScript enumerates
  them is not modelled).\<close>

record statistics =
  totalVotes :: nat
  votesByCandidate :: "(string \<times> js_prop) list"

text \<open>\<^verbatim>\<open>voteLog = { votes: [], statistics: {} }\<close>; the empty object is \<open>None\<close>.\<close>

record voteLog =
  votes :: "vote list"
  statistics :: "statistics option"

text \<open>The fields of \<^verbatim>\<open>config.json\<close> that the two files read.\<close>

record selectors =
  consentButton :: string
  cookieButton :: string
  top20List :: string
  mainVoteButtonId :: string
  alternativeVoteButtonIds :: "string list"
  voteConfirmation :: string

record voting =
  maxVotes :: int
  votesPerHour :: real
  mainVotePercentage :: real
  totalVotingPeriodDays :: real

record voteWindow =
  window_start :: int
  window_end :: int

record config =
  targetPage :: string
  selectors :: selectors
  voting :: voting
  voteWindow :: voteWindow

text \<open>The argument of \<^verbatim>\<open>sleep\<close>: a number of milliseconds, or the result of a division by
  zero.\<close>

datatype duration = Ms real | NotFinite

text \<open>The calls of \<^verbatim>\<open>console.log\<close> and \<^verbatim>\<open>console.error\<close>, one constructor per call site.\<close>

datatype console =
    NavigationFailed int int string
  | RetryingAfterDelay
  | MaximumRetriesExceeded
  | ConsentButtonSkipped
  | CookieButtonSkipped
  | ConsentHandlingCompleted
  | ButtonClicked "string option" int
  | VoteCounted
  | ConfirmationNotVisible
  | VoteButtonNotFound "string option"
  | ErrorDuringVoting string
  | LogSaved string
  | StartingSession
  | FailedToNavigate
  | WaitingForTop20
  | WillVote int
  | BatchCompleted int
  | ErrorDuringVotingProcess string
  | ClosingBrowser
  | BrowserClosed
  | WaitingBeforeNextSession duration
  | VotingCompleted int
  | GracefullyShuttingDown
  | OutsideVotingWindow

datatype signal = SIGINT | SIGTERM

datatype event =
    Console console
  | Sleep duration
  | LaunchBrowser
  | CloseBrowser
  | Goto string real
  | WaitForSelector string
  | ClickSelector string
  | Query string
  | ScrollIntoView
  | ClickButton
  | EvalDisplay string
  | WriteFile string voteLog
  | Exit int
  | KilledBy signal

record state =
  ledger :: voteLog
  trace :: "event list"

definition emit :: "event \<Rightarrow> state \<Rightarrow> state" where
  "emit ev s = s\<lparr>trace := trace s @ [ev]\<rparr>"

text \<open>\<^verbatim>\<open>voteLog.votes.push(v)\<close>\<close>

definition push_vote :: "vote \<Rightarrow> state \<Rightarrow> state" where
  "push_vote v s = s\<lparr>ledger := (ledger s)\<lparr>votes := votes (ledger s) @ [v]\<rparr>\<rparr>"

text \<open>String coercion of an identifier, in a template literal and as a property name.\<close>

fun js_string :: "string option \<Rightarrow> string" where
  "js_string None = ''undefined''"
| "js_string (Some s) = s"

text \<open>\<^verbatim>\<open>xs[i]\<close>: reading outside the array gives \<^verbatim>\<open>undefined\<close>.\<close>

definition js_index :: "'a list \<Rightarrow> int \<Rightarrow> 'a option" where
  "js_index xs i = (if 0 \<le> i \<and> i < int (length xs) then Some (xs ! nat i) else None)"

section \<open>Rounding\<close>

text \<open>The integer nearest to a real, a tie going to the even one.\<close>

definition round_even :: "real \<Rightarrow> int" where
  "round_even x =
     (let f = \<lfloor>x\<rfloor>; d = x - of_int f
      in if d < 1 / 2 then f else if 1 / 2 < d then f + 1 else if even f then f else f + 1)"

text \<open>The double nearest to a real, a tie going to the even significand: the result of an
  arithmetic operation of JavaScript, and the value of a decimal literal, is the exact
  value rounded in this way. A double in \<open>[2^e, 2^(e+1))\<close> is a multiple of \<open>2^(e-52)\<close>. The
  range of the exponent is not bounded here; the numbers of this program are far from
  overflow and from subnormal numbers.\<close>

definition round_double :: "real \<Rightarrow> real" where
  "round_double x =
     (if x = 0 then 0
      else (let ulp = 2 powr (of_int \<lfloor>log 2 \<bar>x\<bar>\<rfloor> - 52)
            in of_int (round_even (x / ulp)) * ulp))"

section \<open>randomInterval\<close>

text \<open>\<^verbatim>\<open>(min, max) => Math.floor(Math.random() * (max - min + 1) + min)\<close>, with the value \<open>u\<close>
  of \<^verbatim>\<open>Math.random()\<close> as first argument. \<open>max - min + 1\<close> is an integer, which doubles hold
  exactly below \<open>2^53\<close>; the product and the sum are rounded.\<close>

definition randomInterval :: "real \<Rightarrow> int \<Rightarrow> int \<Rightarrow> int" where
  "randomInterval u mn mx =
     \<lfloor>round_double (round_double (u * of_int (mx - mn + 1)) + of_int mn)\<rfloor>"

section \<open>Observations\<close>

text \<open>What one call of \<^verbatim>\<open>navigateWithRetry\<close> meets: whether the \<open>i\<close>-th \<^verbatim>\<open>page.goto\<close> rejects
  (attempts are counted from 0, as the loop variable), and the value of \<^verbatim>\<open>Math.random()\<close>
  in the back-off after it.\<close>

record nav_obs =
  goto_result :: "int \<Rightarrow> error option"
  backoff_random :: "int \<Rightarrow> real"

text \<open>What \<^verbatim>\<open>handleConsents\<close> meets: the four awaited page calls.\<close>

record consent_obs =
  consent_wait :: "error option"
  consent_click :: "error option"
  cookie_wait :: "error option"
  cookie_click :: "error option"

text \<open>What one iteration of the loop of \<^verbatim>\<open>voteMultipleTimes\<close> meets, in the order of the calls:
  the two values of \<^verbatim>\<open>Math.random()\<close> of the choice of target (the second is drawn only when
  the first does not choose the main target), \<^verbatim>\<open>page.waitForSelector\<close> (rejects when the
  button does not appear within 20000 ms), \<^verbatim>\<open>page.$\<close> (\<open>True\<close>: an element handle, \<open>False\<close>:
  \<^verbatim>\<open>null\<close>), \<^verbatim>\<open>button.evaluate\<close>, \<^verbatim>\<open>button.click\<close>, \<^verbatim>\<open>page.$eval\<close> (the computed \<^verbatim>\<open>display\<close> of the
  confirmation element), \<^verbatim>\<open>new Date().toISOString()\<close> and the \<^verbatim>\<open>Math.random()\<close> of the pacing
  delay.\<close>

record iter_obs =
  rnd_main :: real
  rnd_alt :: real
  wait_button :: "error option"
  query_button :: "error + bool"
  scroll_button :: "error option"
  click_button :: "error option"
  eval_confirmation :: "error + string"
  iso_now :: string
  rnd_delay :: real

text \<open>What one iteration of the outer loop meets. \<open>utc_hour\<close> and \<open>rnd_window\<close> are read by
  the time-boxed variant only, \<open>rnd_batch\<close> by \<^verbatim>\<open>index.js\<close> only.\<close>

record session_obs =
  utc_hour :: int
  rnd_window :: real
  launch :: "error option"
  nav :: nav_obs
  consents :: consent_obs
  top20_wait :: "error option"
  rnd_batch :: real
  batch :: "int \<Rightarrow> iter_obs"

section \<open>navigateWithRetry\<close>

text \<open>The \<^verbatim>\<open>for\<close> loop of \<^verbatim>\<open>navigateWithRetry\<close> from the value \<open>i\<close> of its variable. The result is
  the returned value; falling out of the loop returns \<^verbatim>\<open>undefined\<close>. The \<^verbatim>\<open>catch\<close> clause
  takes every rejection of \<^verbatim>\<open>page.goto\<close>, so the function itself never rejects.\<close>

function navigateWithRetry_loop ::
  "string \<Rightarrow> int \<Rightarrow> real \<Rightarrow> nav_obs \<Rightarrow> int \<Rightarrow> state \<Rightarrow> bool option \<times> state" where
  "navigateWithRetry_loop url retries timeout ob i s =
     (if i < retries then
        (let s1 = emit (Goto url timeout) s in
         case goto_result ob i of
           None \<Rightarrow> (Some True, s1)
         | Some err \<Rightarrow>
             (let s2 = emit (Console (NavigationFailed (i + 1) retries (message err))) s1 in
              if i < retries - 1 then
                navigateWithRetry_loop url retries timeout ob (i + 1)
                  (emit (Sleep (Ms (of_int (randomInterval (backoff_random ob i) 5000 10000))))
                     (emit (Console RetryingAfterDelay) s2))
              else (Some False, emit (Console MaximumRetriesExceeded) s2)))
      else (None, s))"
  by pat_completeness auto
termination
  by (relation "measure (\<lambda>(url, retries, timeout, ob, i, s). nat (retries - i))") auto

declare navigateWithRetry_loop.simps [simp del]

definition navigateWithRetry ::
  "string \<Rightarrow> int \<Rightarrow> real \<Rightarrow> nav_obs \<Rightarrow> state \<Rightarrow> bool option \<times> state" where
  "navigateWithRetry url retries timeout ob s = navigateWithRetry_loop url retries timeout ob 0 s"

text \<open>\<^verbatim>\<open>if (!navigationSuccessful)\<close>: \<^verbatim>\<open>undefined\<close> and \<^verbatim>\<open>false\<close> are falsy.\<close>

fun js_truthy :: "bool option \<Rightarrow> bool" where
  "js_truthy None = False"
| "js_truthy (Some b) = b"

section \<open>handleConsents\<close>

definition handleConsents :: "selectors \<Rightarrow> consent_obs \<Rightarrow> state \<Rightarrow> state" where
  "handleConsents sel ob s =
     (let s1 = emit (WaitForSelector (consentButton sel)) s;
          s2 = (case consent_wait ob of
                  Some err \<Rightarrow> emit (Console ConsentButtonSkipped) s1
                | None \<Rightarrow>
                    (let s1' = emit (ClickSelector (consentButton sel)) s1 in
                     case consent_click ob of
                       Some err \<Rightarrow> emit (Console ConsentButtonSkipped) s1'
                     | None \<Rightarrow> s1'));
          s3 = emit (WaitForSelector (cookieButton sel)) s2;
          s4 = (case cookie_wait ob of
                  Some err \<Rightarrow> emit (Console CookieButtonSkipped) s3
                | None \<Rightarrow>
                    (let s3' = emit (ClickSelector (cookieButton sel)) s3 in
                     case cookie_click ob of
                       Some err \<Rightarrow> emit (Console CookieButtonSkipped) s3'
                     | None \<Rightarrow> s3'))
      in emit (Console ConsentHandlingCompleted) s4)"

section \<open>voteMultipleTimes\<close>

text \<open>The target of one iteration: \<^verbatim>\<open>voteForMain ? selectors.mainVoteButtonId :
  selectors.alternativeVoteButtonIds[Math.floor(Math.random() * ids.length)]\<close>.\<close>

definition chooseButtonId :: "selectors \<Rightarrow> bool \<Rightarrow> real \<Rightarrow> string option" where
  "chooseButtonId sel voteForMain u =
     (if voteForMain then Some (mainVoteButtonId sel)
      else js_index (alternativeVoteButtonIds sel)
             \<lfloor>round_double (u * of_nat (length (alternativeVoteButtonIds sel)))\<rfloor>)"

text \<open>\<^verbatim>\<open>`button[data-id="${buttonId}"]`\<close>\<close>

definition button_selector :: "string option \<Rightarrow> string" where
  "button_selector bid = ''button[data-id=\"'' @ js_string bid @ ''\"]''"

text \<open>The body of the \<^verbatim>\<open>for\<close> loop of \<^verbatim>\<open>voteMultipleTimes\<close>, the same text in both files but for
  the test that sets \<^verbatim>\<open>voteForMain\<close>, which is the argument \<open>decide\<close> here. \<open>Inl e\<close> is an
  exception leaving the body, \<open>Inr ()\<close> its normal end.\<close>

definition vote_iteration ::
  "selectors \<Rightarrow> (real \<Rightarrow> bool) \<Rightarrow> int \<Rightarrow> int \<Rightarrow> int \<Rightarrow> iter_obs \<Rightarrow> state
     \<Rightarrow> (error + unit) \<times> state" where
  "vote_iteration sel decide i minDelay maxDelay ob s =
     (let voteForMain = decide (rnd_main ob);
          bid = chooseButtonId sel voteForMain (rnd_alt ob);
          buttonSelector = button_selector bid;
          s1 = emit (WaitForSelector buttonSelector) s
      in case wait_button ob of
           Some err \<Rightarrow> (Inl err, s1)
         | None \<Rightarrow>
             (let s2 = emit (Query buttonSelector) s1 in
              case query_button ob of
                Inl err \<Rightarrow> (Inl err, s2)
              | Inr False \<Rightarrow> (Inr (), emit (Console (VoteButtonNotFound bid)) s2)
              | Inr True \<Rightarrow>
                  (let s3 = emit ScrollIntoView s2 in
                   case scroll_button ob of
                     Some err \<Rightarrow> (Inl err, s3)
                   | None \<Rightarrow>
                       (let s4 = emit ClickButton (emit (Sleep (Ms 1000)) s3) in
                        case click_button ob of
                          Some err \<Rightarrow> (Inl err, s4)
                        | None \<Rightarrow>
                            (let s5 = emit (EvalDisplay (voteConfirmation sel))
                                        (emit (Sleep (Ms 1500))
                                           (emit (Console (ButtonClicked bid (i + 1))) s4)) in
                             case eval_confirmation ob of
                               Inl err \<Rightarrow> (Inl err, s5)
                             | Inr displayStyle \<Rightarrow>
                                 (let confirmationVisible = (displayStyle = ''block'');
                                      s6 = (if confirmationVisible then
                                              push_vote \<lparr>buttonId = bid, timestamp = iso_now ob\<rparr>
                                                (emit (Console VoteCounted) s5)
                                            else emit (Console ConfirmationNotVisible) s5)
                                  in (Inr (),
                                      emit (Sleep (Ms (of_int
                                        (randomInterval (rnd_delay ob) minDelay maxDelay)))) s6)))))))"

text \<open>The \<^verbatim>\<open>for\<close> loop from the value \<open>i\<close> of its variable, followed by \<^verbatim>\<open>return true\<close>. An
  exception in an iteration ends the loop.\<close>

function voteMultipleTimes_loop ::
  "selectors \<Rightarrow> (real \<Rightarrow> bool) \<Rightarrow> int \<Rightarrow> int \<Rightarrow> int \<Rightarrow> (int \<Rightarrow> iter_obs) \<Rightarrow> int \<Rightarrow> state
     \<Rightarrow> (error + bool) \<times> state" where
  "voteMultipleTimes_loop sel decide ntimes minDelay maxDelay obs i s =
     (if i < ntimes then
        (case vote_iteration sel decide i minDelay maxDelay (obs i) s of
           (Inl err, s') \<Rightarrow> (Inl err, s')
         | (Inr u, s') \<Rightarrow> voteMultipleTimes_loop sel decide ntimes minDelay maxDelay obs (i + 1) s')
      else (Inr True, s))"
  by pat_completeness auto
termination
  by (relation "measure (\<lambda>(sel, decide, ntimes, minDelay, maxDelay, obs, i, s). nat (ntimes - i))")
    auto

declare voteMultipleTimes_loop.simps [simp del]

text \<open>\<^verbatim>\<open>index.js\<close>: \<^verbatim>\<open>const voteForMain = Math.random() > 0.2\<close>, with the value \<open>r\<close> of
  \<^verbatim>\<open>Math.random()\<close>.\<close>

definition voteForMain :: "real \<Rightarrow> bool" where
  "voteForMain r = (r > round_double 0.2)"

text \<open>\<^verbatim>\<open>index.js\<close>: the loop is inside \<^verbatim>\<open>try\<close>, and the \<^verbatim>\<open>catch\<close> clause logs the exception and
  throws it again.\<close>

definition voteMultipleTimes ::
  "selectors \<Rightarrow> int \<Rightarrow> int \<Rightarrow> int \<Rightarrow> (int \<Rightarrow> iter_obs) \<Rightarrow> state \<Rightarrow> (error + bool) \<times> state" where
  "voteMultipleTimes sel ntimes minDelay maxDelay obs s =
     (case voteMultipleTimes_loop sel voteForMain ntimes minDelay maxDelay obs 0 s of
        (Inl err, s') \<Rightarrow> (Inl err, emit (Console (ErrorDuringVoting (message err))) s')
      | (Inr b, s') \<Rightarrow> (Inr b, s'))"

text \<open>The time-boxed variant: \<^verbatim>\<open>const mainVotePercentage = CONFIG.voting.mainVotePercentage / 100\<close>
  and \<^verbatim>\<open>const voteForMain = Math.random() < mainVotePercentage\<close>.\<close>

definition voteForMain_tb :: "config \<Rightarrow> real \<Rightarrow> bool" where
  "voteForMain_tb CONFIG r = (r < round_double (mainVotePercentage (voting CONFIG) / 100))"

text \<open>The time-boxed variant: no \<^verbatim>\<open>try\<close>.\<close>

definition voteMultipleTimes_tb ::
  "config \<Rightarrow> selectors \<Rightarrow> int \<Rightarrow> int \<Rightarrow> int \<Rightarrow> (int \<Rightarrow> iter_obs) \<Rightarrow> state
     \<Rightarrow> (error + bool) \<times> state" where
  "voteMultipleTimes_tb CONFIG sel ntimes minDelay maxDelay obs s =
     voteMultipleTimes_loop sel (voteForMain_tb CONFIG) ntimes minDelay maxDelay obs 0 s"

section \<open>saveVoteLog\<close>

text \<open>The names of the properties that an object made by \<^verbatim>\<open>{}\<close> inherits from
  \<^verbatim>\<open>Object.prototype\<close>.\<close>

definition inherited :: "string \<Rightarrow> bool" where
  "inherited key =
     (key \<in> set [''constructor'', ''__defineGetter__'', ''__defineSetter__'', ''hasOwnProperty'',
                 ''__lookupGetter__'', ''__lookupSetter__'', ''isPrototypeOf'',
                 ''propertyIsEnumerable'', ''toString'', ''valueOf'', ''__proto__'',
                 ''toLocaleString''])"

text \<open>\<^verbatim>\<open>acc[key]\<close>, read: an own property, else an inherited one, else \<^verbatim>\<open>undefined\<close>.\<close>

definition get_prop :: "(string \<times> js_prop) list \<Rightarrow> string \<Rightarrow> js_prop option" where
  "get_prop acc key =
     (case map_of acc key of
        Some x \<Rightarrow> Some x
      | None \<Rightarrow> if inherited key then Some Other else None)"

text \<open>\<^verbatim>\<open>x || 0\<close>: \<^verbatim>\<open>undefined\<close> and the number 0 give 0; functions, objects and non-empty
  strings are truthy.\<close>

fun or_zero :: "js_prop option \<Rightarrow> js_prop" where
  "or_zero None = Number 0"
| "or_zero (Some (Number n)) = (if n = 0 then Number 0 else Number n)"
| "or_zero (Some Other) = Other"

text \<open>\<^verbatim>\<open>x + 1\<close>: on what is no number it makes a string.\<close>

fun plus_one :: "js_prop \<Rightarrow> js_prop" where
  "plus_one (Number n) = Number (n + 1)"
| "plus_one Other = Other"

text \<open>\<^verbatim>\<open>acc[key] = x\<close>, for \<open>x\<close> a number or a string: an own property is made or changed, but
  for the name \<^verbatim>\<open>__proto__\<close>, whose setter ignores such values.\<close>

definition set_prop :: "(string \<times> js_prop) list \<Rightarrow> string \<Rightarrow> js_prop \<Rightarrow> (string \<times> js_prop) list" where
  "set_prop acc key x = (if key = ''__proto__'' then acc else AList.update key x acc)"

text \<open>The function given to \<^verbatim>\<open>reduce\<close>: \<^verbatim>\<open>acc[vote.buttonId] = (acc[vote.buttonId] || 0) + 1\<close>.
  The accumulator starts as \<^verbatim>\<open>{}\<close>, without own properties.\<close>

definition count_vote :: "(string \<times> js_prop) list \<Rightarrow> vote \<Rightarrow> (string \<times> js_prop) list" where
  "count_vote acc v =
     set_prop acc (js_string (buttonId v))
       (plus_one (or_zero (get_prop acc (js_string (buttonId v)))))"

text \<open>The body of \<^verbatim>\<open>saveVoteLog\<close> once \<open>logFilePath\<close> is known: the same text in both files.
  The event \<open>WriteFile\<close> is the call of \<^verbatim>\<open>fs.writeFileSync\<close>, with the document given to
  \<^verbatim>\<open>JSON.stringify\<close>; \<open>write_result\<close> is what the file system answers: \<open>None\<close> when the file has
  been written, \<open>Some e\<close> when the call throws \<open>e\<close> and no file has been written (so when the
  directory of the path does not exist: neither script creates a directory). Nothing in
  \<^verbatim>\<open>saveVoteLog\<close> catches that exception: \<open>Inl e\<close> is the exception leaving the function,
  after the summary has been stored in \<^verbatim>\<open>voteLog.statistics\<close> and before the message.\<close>

definition saveVoteLog_to :: "string \<Rightarrow> error option \<Rightarrow> state \<Rightarrow> (error + unit) \<times> state" where
  "saveVoteLog_to logFilePath write_result s =
     (let tot = length (votes (ledger s));
          voteCounts = foldl count_vote [] (votes (ledger s));
          s1 = s\<lparr>ledger := (ledger s)
                 \<lparr>statistics := Some \<lparr>totalVotes = tot, votesByCandidate = voteCounts\<rparr>\<rparr>\<rparr>;
          s2 = emit (WriteFile logFilePath (ledger s1)) s1
      in case write_result of
           Some err \<Rightarrow> (Inl err, s2)
         | None \<Rightarrow> (Inr (), emit (Console (LogSaved logFilePath)) s2))"

text \<open>\<^verbatim>\<open>index.js\<close>: \<^verbatim>\<open>path.join(__dirname, `vote_log${new Date().toISOString()}.json`)\<close>; \<open>dir\<close> is
  \<^verbatim>\<open>__dirname\<close> and \<open>stamp\<close> the time stamp.\<close>

definition saveVoteLog ::
  "string \<Rightarrow> string \<Rightarrow> error option \<Rightarrow> state \<Rightarrow> (error + unit) \<times> state" where
  "saveVoteLog dir stamp write_result s =
     saveVoteLog_to (dir @ ''/vote_log'' @ stamp @ ''.json'') write_result s"

text \<open>The time-boxed variant:
  \<^verbatim>\<open>path.join(__dirname, 'logs', `vote_log_${new Date().toISOString()}.json`)\<close>.\<close>

definition saveVoteLog_tb ::
  "string \<Rightarrow> string \<Rightarrow> error option \<Rightarrow> state \<Rightarrow> (error + unit) \<times> state" where
  "saveVoteLog_tb dir stamp write_result s =
     saveVoteLog_to (dir @ ''/logs/vote_log_'' @ stamp @ ''.json'') write_result s"

section \<open>Signals\<close>

text \<open>The time-boxed variant: \<^verbatim>\<open>saveAndExit\<close>, registered by \<^verbatim>\<open>process.on('SIGTERM', saveAndExit)\<close>
  and \<^verbatim>\<open>process.on('SIGINT', saveAndExit)\<close>. It has no \<^verbatim>\<open>try\<close>: when \<^verbatim>\<open>saveVoteLog\<close> throws, the
  exception leaves the listener and \<^verbatim>\<open>process.exit(0)\<close> is not reached.\<close>

type_synonym listener = "string \<Rightarrow> string \<Rightarrow> error option \<Rightarrow> state \<Rightarrow> (error + unit) \<times> state"

definition saveAndExit_tb :: listener where
  "saveAndExit_tb dir stamp write_result s =
     (case saveVoteLog_tb dir stamp write_result (emit (Console GracefullyShuttingDown) s) of
        (Inl err, s') \<Rightarrow> (Inl err, s')
      | (Inr u, s') \<Rightarrow> (Inr (), emit (Exit 0) s'))"


text \<open>\<^verbatim>\<open>index.js\<close> has no call of \<^verbatim>\<open>process.on\<close>.\<close>

definition handlers :: "signal \<Rightarrow> listener option" where
  "handlers sig = None"

text \<open>A signal arrives: the registered listener runs; with no listener the signal ends the
  process and no code of the script runs. \<open>Inl e\<close> is an exception that leaves the listener,
  which nothing catches.\<close>

definition deliver ::
  "(signal \<Rightarrow> listener option) \<Rightarrow> signal \<Rightarrow> string \<Rightarrow> string \<Rightarrow> error option \<Rightarrow> state
     \<Rightarrow> (error + unit) \<times> state" where
  "deliver registered sig dir stamp write_result s =
     (case registered sig of
        Some listener \<Rightarrow> listener dir stamp write_result s
      | None \<Rightarrow> (Inr (), emit (KilledBy sig) s))"

section \<open>The outer loop\<close>

text \<open>A JavaScript division whose result is used as a delay.\<close>

definition js_div :: "real \<Rightarrow> real \<Rightarrow> duration" where
  "js_div a b = (if b = 0 then NotFinite else Ms (round_double (a / b)))"

text \<open>\<^verbatim>\<open>index.js\<close>: the \<^verbatim>\<open>try\<close> statement of the loop body, from the running total to the new
  one.\<close>

definition main_try :: "config \<Rightarrow> session_obs \<Rightarrow> int \<Rightarrow> state \<Rightarrow> int \<times> state" where
  "main_try CONFIG ob tot s =
     (let s1 = handleConsents (selectors CONFIG) (consents ob) s;
          s2 = emit (WaitForSelector (top20List (selectors CONFIG)))
                 (emit (Console WaitingForTop20) (emit (Sleep (Ms 1000)) s1))
      in case top20_wait ob of
           Some err \<Rightarrow> (tot, emit (Console (ErrorDuringVotingProcess (message err))) s2)
         | None \<Rightarrow>
             (let votesInThisBatch = randomInterval (rnd_batch ob) 1 5;
                  s3 = emit (Console (WillVote votesInThisBatch)) s2
              in case voteMultipleTimes (selectors CONFIG) votesInThisBatch 3000 7000 (batch ob) s3 of
                   (Inl err, s4) \<Rightarrow>
                     (tot, emit (Console (ErrorDuringVotingProcess (message err))) s4)
                 | (Inr votingSuccessful, s4) \<Rightarrow>
                     (if votingSuccessful then
                        (tot + votesInThisBatch,
                         emit (Console (BatchCompleted (tot + votesInThisBatch))) s4)
                      else (tot, s4))))"

text \<open>\<^verbatim>\<open>index.js\<close>: the body of the \<^verbatim>\<open>while\<close> loop. \<open>Inr tot'\<close>: the body ends (also by
  \<^verbatim>\<open>continue\<close>) with the running total \<open>tot'\<close>; \<open>Inl e\<close>: \<^verbatim>\<open>initializeBrowserWithNewIP\<close> rejects,
  which nothing catches.\<close>

definition main_body :: "config \<Rightarrow> session_obs \<Rightarrow> int \<Rightarrow> state \<Rightarrow> (error + int) \<times> state" where
  "main_body CONFIG ob tot s =
     (let delayBetweenSessions = js_div 3600000 (votesPerHour (voting CONFIG));
          s1 = emit LaunchBrowser (emit (Console StartingSession) s)
      in case launch ob of
           Some err \<Rightarrow> (Inl err, s1)
         | None \<Rightarrow>
             (case navigateWithRetry (targetPage CONFIG) 3 60000 (nav ob) s1 of
                (navigationSuccessful, s2) \<Rightarrow>
                  if \<not> js_truthy navigationSuccessful then
                    (Inr tot, emit CloseBrowser (emit (Console FailedToNavigate) s2))
                  else
                    (case main_try CONFIG ob tot s2 of
                       (tot', s3) \<Rightarrow>
                         (let s4 = emit (Console BrowserClosed)
                                     (emit CloseBrowser (emit (Console ClosingBrowser) s3))
                          in if tot' < maxVotes (voting CONFIG) then
                               (Inr tot',
                                emit (Sleep delayBetweenSessions)
                                  (emit (Console (WaitingBeforeNextSession delayBetweenSessions)) s4))
                             else (Inr tot', s4)))))"

text \<open>\<^verbatim>\<open>index.js\<close>: the \<^verbatim>\<open>while\<close> loop and what follows it. \<open>sessions k\<close> is what the \<open>k\<close>-th
  iteration meets, \<open>stamp\<close> the time stamp of the final \<^verbatim>\<open>saveVoteLog\<close> and \<open>write_result\<close> what
  its \<^verbatim>\<open>fs.writeFileSync\<close> meets. The loop need not end: \<open>None\<close> is a run that never leaves
  it.\<close>

partial_function (option) main_loop ::
  "config \<Rightarrow> string \<Rightarrow> string \<Rightarrow> error option \<Rightarrow> (nat \<Rightarrow> session_obs) \<Rightarrow> nat \<Rightarrow> int \<Rightarrow> state
     \<Rightarrow> ((error + int) \<times> state) option" where
  "main_loop CONFIG dir stamp write_result sessions k tot s =
     (if tot < maxVotes (voting CONFIG) then
        (case main_body CONFIG (sessions k) tot s of
           (Inl err, s') \<Rightarrow> Some (Inl err, s')
         | (Inr tot', s') \<Rightarrow> main_loop CONFIG dir stamp write_result sessions (Suc k) tot' s')
      else
        (case saveVoteLog dir stamp write_result (emit (Console (VotingCompleted tot)) s) of
           (Inl err, s') \<Rightarrow> Some (Inl err, s')
         | (Inr u, s') \<Rightarrow> Some (Inr tot, s')))"

definition initial_state :: state where
  "initial_state = \<lparr>ledger = \<lparr>votes = [], statistics = None\<rparr>, trace = []\<rparr>"

definition main ::
  "config \<Rightarrow> string \<Rightarrow> string \<Rightarrow> error option \<Rightarrow> (nat \<Rightarrow> session_obs)
     \<Rightarrow> ((error + int) \<times> state) option" where
  "main CONFIG dir stamp write_result sessions =
     main_loop CONFIG dir stamp write_result sessions 0 0 initial_state"

text \<open>The time-boxed variant: \<^verbatim>\<open>isWithinVoteWindow\<close>, with the value of \<^verbatim>\<open>now.getUTCHours()\<close>.\<close>

definition isWithinVoteWindow :: "config \<Rightarrow> int \<Rightarrow> bool" where
  "isWithinVoteWindow CONFIG currentHour =
     (currentHour \<ge> window_start (voteWindow CONFIG) \<and> currentHour < window_end (voteWindow CONFIG))"

text \<open>The time-boxed variant: the \<^verbatim>\<open>try\<close> statement of the loop body, with
  \<^verbatim>\<open>votesInThisBatch = 5\<close>.\<close>

definition main_try_tb :: "config \<Rightarrow> session_obs \<Rightarrow> int \<Rightarrow> state \<Rightarrow> int \<times> state" where
  "main_try_tb CONFIG ob tot s =
     (let s1 = handleConsents (selectors CONFIG) (consents ob) s;
          s2 = emit (WaitForSelector (top20List (selectors CONFIG)))
                 (emit (Console WaitingForTop20) (emit (Sleep (Ms 1000)) s1))
      in case top20_wait ob of
           Some err \<Rightarrow> (tot, emit (Console (ErrorDuringVotingProcess (message err))) s2)
         | None \<Rightarrow>
             (let votesInThisBatch = 5;
                  s3 = emit (Console (WillVote votesInThisBatch)) s2
              in case voteMultipleTimes_tb CONFIG (selectors CONFIG) votesInThisBatch 3000 7000
                        (batch ob) s3 of
                   (Inl err, s4) \<Rightarrow>
                     (tot, emit (Console (ErrorDuringVotingProcess (message err))) s4)
                 | (Inr votingSuccessful, s4) \<Rightarrow>
                     (if votingSuccessful then
                        (tot + votesInThisBatch,
                         emit (Console (BatchCompleted (tot + votesInThisBatch))) s4)
                      else (tot, s4))))"

text \<open>The time-boxed variant: the body of the \<^verbatim>\<open>while\<close> loop.\<close>

definition main_body_tb :: "config \<Rightarrow> session_obs \<Rightarrow> int \<Rightarrow> state \<Rightarrow> (error + int) \<times> state" where
  "main_body_tb CONFIG ob tot s =
     (let totalVotingPeriodMs =
            round_double (round_double (round_double (round_double
              (totalVotingPeriodDays (voting CONFIG) * 24) * 60) * 60) * 1000);
          delayBetweenBatches = js_div totalVotingPeriodMs (of_int (maxVotes (voting CONFIG)))
      in if \<not> isWithinVoteWindow CONFIG (utc_hour ob) then
           (let delay = randomInterval (rnd_window ob) 60000 120000
            in (Inr tot, emit (Sleep (Ms (of_int delay))) (emit (Console OutsideVotingWindow) s)))
         else
           (let s1 = emit LaunchBrowser (emit (Console StartingSession) s)
            in case launch ob of
                 Some err \<Rightarrow> (Inl err, s1)
               | None \<Rightarrow>
                   (case navigateWithRetry (targetPage CONFIG) 3 60000 (nav ob) s1 of
                      (navigationSuccessful, s2) \<Rightarrow>
                        if \<not> js_truthy navigationSuccessful then
                          (Inr tot, emit CloseBrowser (emit (Console FailedToNavigate) s2))
                        else
                          (case main_try_tb CONFIG ob tot s2 of
                             (tot', s3) \<Rightarrow>
                               (let s4 = emit (Console BrowserClosed)
                                           (emit CloseBrowser (emit (Console ClosingBrowser) s3))
                                in if tot' < maxVotes (voting CONFIG) then
                                     (Inr tot',
                                      emit (Sleep delayBetweenBatches)
                                        (emit (Console (WaitingBeforeNextSession delayBetweenBatches))
                                           s4))
                                   else (Inr tot', s4))))))"

partial_function (option) main_loop_tb ::
  "config \<Rightarrow> string \<Rightarrow> string \<Rightarrow> error option \<Rightarrow> (nat \<Rightarrow> session_obs) \<Rightarrow> nat \<Rightarrow> int \<Rightarrow> state
     \<Rightarrow> ((error + int) \<times> state) option" where
  "main_loop_tb CONFIG dir stamp write_result sessions k tot s =
     (if tot < maxVotes (voting CONFIG) then
        (case main_body_tb CONFIG (sessions k) tot s of
           (Inl err, s') \<Rightarrow> Some (Inl err, s')
         | (Inr tot', s') \<Rightarrow> main_loop_tb CONFIG dir stamp write_result sessions (Suc k) tot' s')
      else
        (case saveVoteLog_tb dir stamp write_result (emit (Console (VotingCompleted tot)) s) of
           (Inl err, s') \<Rightarrow> Some (Inl err, s')
         | (Inr u, s') \<Rightarrow> Some (Inr tot, s')))"

definition main_tb ::
  "config \<Rightarrow> string \<Rightarrow> string \<Rightarrow> error option \<Rightarrow> (nat \<Rightarrow> session_obs)
     \<Rightarrow> ((error + int) \<times> state) option" where
  "main_tb CONFIG dir stamp write_result sessions =
     main_loop_tb CONFIG dir stamp write_result sessions 0 0 initial_state"

text \<open>An iteration that gets as far as reading the confirmation element, and reads
  \<^verbatim>\<open>'block'\<close>: this is used to state properties, it is no code of the script.\<close>

definition confirmed :: "iter_obs \<Rightarrow> bool" where
  "confirmed ob =
     (wait_button ob = None \<and> query_button ob = Inr True \<and> scroll_button ob = None
      \<and> click_button ob = None \<and> eval_confirmation ob = Inr ''block'')"

text \<open>The exception that an iteration of the loop of \<^verbatim>\<open>voteMultipleTimes\<close> throws, if any: the
  first awaited call that rejects, in the order of the calls. Used to state properties.\<close>

definition raising :: "iter_obs \<Rightarrow> error option" where
  "raising ob =
     (case wait_button ob of
        Some err \<Rightarrow> Some err
      | None \<Rightarrow>
          (case query_button ob of
             Inl err \<Rightarrow> Some err
           | Inr False \<Rightarrow> None
           | Inr True \<Rightarrow>
               (case scroll_button ob of
                  Some err \<Rightarrow> Some err
                | None \<Rightarrow>
                    (case click_button ob of
                       Some err \<Rightarrow> Some err
                     | None \<Rightarrow>
                         (case eval_confirmation ob of
                            Inl err \<Rightarrow> Some err
                          | Inr d \<Rightarrow> None)))))"

text \<open>The record \<^verbatim>\<open>{ buttonId, timestamp: new Date().toISOString() }\<close> that an iteration pushes
  when it does.\<close>

definition record_of :: "selectors \<Rightarrow> (real \<Rightarrow> bool) \<Rightarrow> iter_obs \<Rightarrow> vote" where
  "record_of sel decide ob =
     \<lparr>buttonId = chooseButtonId sel (decide (rnd_main ob)) (rnd_alt ob), timestamp = iso_now ob\<rparr>"

text \<open>The number of calls of \<^verbatim>\<open>page.goto\<close> among some events. Used to state properties.\<close>

fun is_goto :: "event \<Rightarrow> bool" where
  "is_goto (Goto url timeout) = True"
| "is_goto ev = False"

definition attempts :: "event list \<Rightarrow> nat" where
  "attempts evs = length (filter is_goto evs)"

text \<open>How many records of a ledger carry the identifier that is the property name \<open>key\<close>
  (\<^verbatim>\<open>undefined\<close> is counted under the name \<^verbatim>\<open>undefined\<close>, as \<^verbatim>\<open>acc[vote.buttonId]\<close> does). Used to
  state properties.\<close>

definition occurrences :: "vote list \<Rightarrow> string \<Rightarrow> nat" where
  "occurrences vs key = length (filter (\<lambda>v. js_string (buttonId v) = key) vs)"



text \<open>One of the first three attempts of a navigation succeeds. Used to state properties.\<close>

definition navigates :: "nav_obs \<Rightarrow> bool" where
  "navigates ob = (goto_result ob 0 = None \<or> goto_result ob 1 = None \<or> goto_result ob 2 = None)"

text \<open>No iteration among \<open>0, \<dots>, n - 1\<close> throws. Used to state properties.\<close>

definition batch_completes :: "(int \<Rightarrow> iter_obs) \<Rightarrow> int \<Rightarrow> bool" where
  "batch_completes obs n = list_all (\<lambda>j. raising (obs j) = None) [0..n - 1]"

text \<open>The records of the confirmed iterations among \<open>0, \<dots>, n - 1\<close>, up to the first iteration
  that throws. Used to state properties.\<close>

definition batch_records :: "selectors \<Rightarrow> (real \<Rightarrow> bool) \<Rightarrow> (int \<Rightarrow> iter_obs) \<Rightarrow> int \<Rightarrow> vote list" where
  "batch_records sel decide obs n =
     map (\<lambda>j. record_of sel decide (obs j))
       (filter (\<lambda>j. confirmed (obs j)) (takeWhile (\<lambda>j. raising (obs j) = None) [0..n - 1]))"

section \<open>Sample inputs\<close>

definition sample_selectors :: selectors where
  "sample_selectors =
     \<lparr>consentButton = ''#consent'', cookieButton = ''#cookie'', top20List = ''#top20'',
      mainVoteButtonId = ''101'', alternativeVoteButtonIds = [''102'', ''103''],
      voteConfirmation = ''#thanks''\<rparr>"

text \<open>An iteration in which every page call resolves and the confirmation element has the
  computed \<^verbatim>\<open>display\<close> \<open>d\<close>; \<open>u\<close> is the first value of \<^verbatim>\<open>Math.random()\<close>.\<close>

definition sample_iteration :: "real \<Rightarrow> string \<Rightarrow> iter_obs" where
  "sample_iteration u d =
     \<lparr>rnd_main = u, rnd_alt = 1 / 2, wait_button = None, query_button = Inr True,
      scroll_button = None, click_button = None, eval_confirmation = Inr d,
      iso_now = ''2024-05-01T10:00:00.000Z'', rnd_delay = 0\<rparr>"

text \<open>An iteration in which the vote button does not appear within the 20000 ms of
  \<^verbatim>\<open>page.waitForSelector\<close>.\<close>

definition button_missing :: iter_obs where
  "button_missing = (sample_iteration (1 / 2) ''none'')\<lparr>wait_button := Some (Error ''TimeoutError'')\<rparr>"

text \<open>A batch of iterations: the confirmation is visible in the first one only.\<close>

definition sample_batch :: "int \<Rightarrow> iter_obs" where
  "sample_batch i = sample_iteration (1 / 2) (if i = 0 then ''block'' else ''none'')"

definition sample_config :: config where
  "sample_config =
     \<lparr>targetPage = ''https://example.org/top20'', selectors = sample_selectors,
      voting = \<lparr>maxVotes = 5, votesPerHour = 10, mainVotePercentage = 100,
                totalVotingPeriodDays = 1\<rparr>,
      voteWindow = \<lparr>window_start = 8, window_end = 22\<rparr>\<rparr>"

text \<open>A navigation whose first \<open>k\<close> attempts fail.\<close>

definition sample_nav :: "int \<Rightarrow> nav_obs" where
  "sample_nav k =
     \<lparr>goto_result = (\<lambda>i. if i < k then Some (Error ''net::ERR_TIMED_OUT'') else None),
      backoff_random = (\<lambda>i. 0)\<rparr>"

text \<open>A run that has recorded three votes so far.\<close>

definition sample_state :: state where
  "sample_state =
     \<lparr>ledger = \<lparr>votes = [\<lparr>buttonId = Some ''101'', timestamp = ''2024-05-01T10:00:00.000Z''\<rparr>,
                          \<lparr>buttonId = Some ''102'', timestamp = ''2024-05-01T10:00:09.000Z''\<rparr>,
                          \<lparr>buttonId = Some ''101'', timestamp = ''2024-05-01T10:00:17.000Z''\<rparr>],
                 statistics = None\<rparr>,
      trace = []\<rparr>"

text \<open>A run that has recorded three votes, two of them for a target whose identifier is
  \<^verbatim>\<open>constructor\<close>.\<close>

definition inherited_name_state :: state where
  "inherited_name_state =
     \<lparr>ledger = \<lparr>votes = [\<lparr>buttonId = Some ''101'', timestamp = ''2024-05-01T10:00:00.000Z''\<rparr>,
                          \<lparr>buttonId = Some ''constructor'',
                           timestamp = ''2024-05-01T10:00:09.000Z''\<rparr>,
                          \<lparr>buttonId = Some ''constructor'',
                           timestamp = ''2024-05-01T10:00:17.000Z''\<rparr>],
                 statistics = None\<rparr>,
      trace = []\<rparr>"

text \<open>An iteration of the outer loop at the UTC hour \<open>hour\<close>: the browser starts, the first
  navigation succeeds, the cookie button is absent, the list appears, and the batch meets
  \<open>obs\<close>.\<close>

definition sample_session :: "int \<Rightarrow> (int \<Rightarrow> iter_obs) \<Rightarrow> session_obs" where
  "sample_session hour obs =
     \<lparr>utc_hour = hour, rnd_window = 0, launch = None, nav = sample_nav 0,
      consents = \<lparr>consent_wait = None, consent_click = None,
                  cookie_wait = Some (Error ''TimeoutError''), cookie_click = None\<rparr>,
      top20_wait = None, rnd_batch = 1 / 2, batch = obs\<rparr>"

text \<open>A batch whose second iteration does not find its button in time.\<close>

definition failing_batch :: "int \<Rightarrow> iter_obs" where
  "failing_batch i = (if i = 1 then button_missing else sample_batch i)"

text \<open>A batch whose iterations all meet the same.\<close>

definition repeat_iteration :: "iter_obs \<Rightarrow> int \<Rightarrow> iter_obs" where
  "repeat_iteration ob i = ob"

section \<open>Properties of the embedding\<close>

lemma emit_ledger [simp]: "ledger (emit ev s) = ledger s"
  by (simp add: emit_def)

lemma emit_trace [simp]: "trace (emit ev s) = trace s @ [ev]"
  by (simp add: emit_def)

lemma push_vote_ledger [simp]: "votes (ledger (push_vote v s)) = votes (ledger s) @ [v]"
  by (simp add: push_vote_def)

lemma push_vote_trace [simp]: "trace (push_vote v s) = trace s"
  by (simp add: push_vote_def)

subsection \<open>Rounding\<close>

lemma round_even_near: "\<bar>x - of_int k\<bar> < 1 / 2 \<Longrightarrow> round_even x = k"
proof -
  assume a: "\<bar>x - of_int k\<bar> < 1 / 2"
  show ?thesis
  proof (cases "of_int k \<le> x")
    case True
    then have "\<lfloor>x\<rfloor> = k" using a by (simp add: floor_eq_iff) 
    then show ?thesis using a True by (simp add: round_even_def Let_def)
  next
    case False
    then have f: "\<lfloor>x\<rfloor> = k - 1" using a by (simp add: floor_eq_iff)
    then show ?thesis using a False by (simp add: round_even_def Let_def)
  qed
qed

lemma round_even_of_int [simp]: "round_even (of_int k) = k"
  by (rule round_even_near) simp

lemma round_even_tie:
  "x = of_int k + 1 / 2 \<Longrightarrow> round_even x = (if even k then k else k + 1)"
proof -
  assume x: "x = of_int k + 1 / 2"
  then have "\<lfloor>x\<rfloor> = k" by (simp add: floor_eq_iff)
  then show ?thesis using x by (simp add: round_even_def Let_def)
qed

lemma round_even_cases: "round_even x = \<lfloor>x\<rfloor> \<or> round_even x = \<lfloor>x\<rfloor> + 1"
  by (simp add: round_even_def Let_def)

lemma round_even_error: "\<bar>of_int (round_even x) - x\<bar> \<le> 1 / 2"
proof -
  have f: "of_int \<lfloor>x\<rfloor> \<le> x" "x < of_int \<lfloor>x\<rfloor> + 1" by linarith+
  have "round_even x = \<lfloor>x\<rfloor> \<and> x - of_int \<lfloor>x\<rfloor> \<le> 1 / 2
      \<or> round_even x = \<lfloor>x\<rfloor> + 1 \<and> 1 / 2 \<le> x - of_int \<lfloor>x\<rfloor>"
    by (simp add: round_even_def Let_def)
  then show ?thesis
  proof
    assume "round_even x = \<lfloor>x\<rfloor> \<and> x - of_int \<lfloor>x\<rfloor> \<le> 1 / 2"
    then show ?thesis using f by simp
  next
    assume "round_even x = \<lfloor>x\<rfloor> + 1 \<and> 1 / 2 \<le> x - of_int \<lfloor>x\<rfloor>"
    then show ?thesis using f by simp
  qed
qed

lemma round_even_le: "x \<le> of_int k \<Longrightarrow> round_even x \<le> k"
proof -
  assume a: "x \<le> of_int k"
  show ?thesis
  proof (cases "x = of_int k")
    case True
    then show ?thesis by simp
  next
    case False
    then have "x < of_int k" using a by simp
    then have "\<lfloor>x\<rfloor> < k" by (simp add: floor_less_iff)
    then show ?thesis using round_even_cases [of x] by linarith
  qed
qed

lemma round_even_ge: "of_int k \<le> x \<Longrightarrow> k \<le> round_even x"
proof -
  assume "of_int k \<le> x"
  then have "k \<le> \<lfloor>x\<rfloor>" by (simp add: le_floor_iff)
  then show ?thesis using round_even_cases [of x] by linarith
qed

lemma round_even_less: "x < of_int k - 1 / 2 \<Longrightarrow> round_even x < k"
proof -
  assume a: "x < of_int k - 1 / 2"
  have "\<bar>of_int (round_even x) - x\<bar> \<le> 1 / 2" by (rule round_even_error)
  then have "of_int (round_even x) < (of_int k :: real)" using a by linarith
  then show ?thesis by simp
qed

text \<open>Rounding a number of \<open>[2^e, 2^(e+1))\<close>: to a multiple of \<open>2^(e-52)\<close>.\<close>

lemma round_double_powr:
  assumes "2 powr of_int e \<le> \<bar>x\<bar>" "\<bar>x\<bar> < 2 powr of_int (e + 1)"
  shows "round_double x = of_int (round_even (x / 2 powr (of_int e - 52))) * 2 powr (of_int e - 52)"
proof -
  have pos: "0 < \<bar>x\<bar>" using assms(1) by (smt (verit) powr_gt_zero)
  then have nz: "x \<noteq> 0" by simp
  have fl: "\<lfloor>log 2 \<bar>x\<bar>\<rfloor> = e"
    using floor_log_eq_powr_iff [of "\<bar>x\<bar>" 2 e] pos assms by simp
  show ?thesis
    unfolding round_double_def Let_def fl using nz by simp
qed

lemma binade_exists:
  assumes "0 < x"
  shows "2 powr of_int \<lfloor>log 2 x\<rfloor> \<le> x \<and> x < 2 powr of_int (\<lfloor>log 2 x\<rfloor> + 1)"
  using floor_log_eq_powr_iff [of x 2 "\<lfloor>log 2 x\<rfloor>"] assms by simp

text \<open>A number of \<open>[2^e, 2^(e+1))\<close> rounds into \<open>[2^e, 2^(e+1)]\<close>.\<close>

lemma round_double_binade_bounds:
  assumes "2 powr of_int e \<le> x" "x < 2 powr of_int (e + 1)"
  shows "2 powr of_int e \<le> round_double x" "round_double x \<le> 2 powr of_int (e + 1)"
proof -
  let ?ulp = "2 powr (of_int e - 52) :: real"
  have x: "0 < x" using assms(1) by (smt (verit) powr_gt_zero)
  have up: "0 < ?ulp" by simp
  have r: "round_double x = of_int (round_even (x / ?ulp)) * ?ulp"
    using round_double_powr [of e x] assms x by simp
  have lo: "2 powr of_int e / ?ulp = of_int (2 ^ 52)"
    by (simp add: powr_diff)
  have hi: "2 powr of_int (e + 1) / ?ulp = of_int (2 ^ 53)"
    by (simp add: powr_diff powr_add)
  have "of_int (2 ^ 52) \<le> x / ?ulp"
    using assms(1) up unfolding lo [symmetric] by (simp add: divide_right_mono)
  then have a: "2 ^ 52 \<le> round_even (x / ?ulp)" by (rule round_even_ge)
  have "x / ?ulp \<le> of_int (2 ^ 53)"
    using assms(2) up unfolding hi [symmetric] by (simp add: divide_right_mono)
  then have b: "round_even (x / ?ulp) \<le> 2 ^ 53" by (rule round_even_le)
  have "2 powr of_int e = of_int (2 ^ 52) * ?ulp"
    using lo up by (simp add: field_simps)
  also have "\<dots> \<le> of_int (round_even (x / ?ulp)) * ?ulp"
  proof (rule mult_right_mono)
    show "(of_int (2 ^ 52) :: real) \<le> of_int (round_even (x / ?ulp))"
      using a by (simp only: of_int_le_iff)
    show "0 \<le> ?ulp" by simp
  qed
  finally show "2 powr of_int e \<le> round_double x" using r by simp
  have "of_int (round_even (x / ?ulp)) * ?ulp \<le> of_int (2 ^ 53) * ?ulp"
  proof (rule mult_right_mono)
    show "(of_int (round_even (x / ?ulp)) :: real) \<le> of_int (2 ^ 53)"
      using b by (simp only: of_int_le_iff)
    show "0 \<le> ?ulp" by simp
  qed
  also have "\<dots> = 2 powr of_int (e + 1)"
    using hi up by (simp add: field_simps)
  finally show "round_double x \<le> 2 powr of_int (e + 1)" using r by simp
qed

lemma round_double_nonneg: "0 \<le> x \<Longrightarrow> 0 \<le> round_double x"
proof (cases "x = 0")
  case True
  then show ?thesis by (simp add: round_double_def)
next
  case False
  assume "0 \<le> x"
  then have x: "0 < x" using False by simp
  have "2 powr of_int \<lfloor>log 2 x\<rfloor> \<le> round_double x"
    using round_double_binade_bounds(1) [of "\<lfloor>log 2 x\<rfloor>" x] binade_exists [OF x] by blast
  moreover have "(0::real) < 2 powr of_int \<lfloor>log 2 x\<rfloor>" by simp
  ultimately show ?thesis by linarith
qed

text \<open>A number below a power of two rounds to at most that power.\<close>

lemma round_double_le_power:
  assumes "0 \<le> x" "x < 2 powr of_int k"
  shows "round_double x \<le> 2 powr of_int k"
proof (cases "x = 0")
  case True
  then show ?thesis by (simp add: round_double_def)
next
  case False
  then have x: "0 < x" using assms(1) by simp
  let ?e = "\<lfloor>log 2 x\<rfloor>"
  have b: "2 powr of_int ?e \<le> x" "x < 2 powr of_int (?e + 1)"
    using binade_exists [OF x] by blast+
  have "2 powr of_int ?e < (2::real) powr of_int k" using b(1) assms(2) by linarith
  then have "?e < k" by (simp add: powr_less_cancel_iff)
  then have "?e + 1 \<le> k" by simp
  then have "(2::real) powr of_int (?e + 1) \<le> 2 powr of_int k"
    by (simp only: powr_le_cancel_iff)
  then show ?thesis using round_double_binade_bounds(2) [OF b] by linarith
qed

lemma round_double_error: "\<bar>round_double x - x\<bar> \<le> \<bar>x\<bar> / 2 ^ 53"
proof (cases "x = 0")
  case True
  then show ?thesis by (simp add: round_double_def)
next
  case False
  then have x: "0 < \<bar>x\<bar>" by simp
  let ?e = "\<lfloor>log 2 \<bar>x\<bar>\<rfloor>"
  let ?ulp = "2 powr (of_int ?e - 52) :: real"
  have up: "0 < ?ulp" by simp
  have b: "2 powr of_int ?e \<le> \<bar>x\<bar>" using binade_exists [OF x] by blast
  have r: "round_double x = of_int (round_even (x / ?ulp)) * ?ulp"
    using False by (simp add: round_double_def Let_def)
  have "round_double x - x = (of_int (round_even (x / ?ulp)) - x / ?ulp) * ?ulp"
    unfolding r by (simp add: left_diff_distrib)
  then have "\<bar>round_double x - x\<bar> = \<bar>of_int (round_even (x / ?ulp)) - x / ?ulp\<bar> * \<bar>?ulp\<bar>"
    by (simp only: abs_mult)
  also have "\<dots> = \<bar>of_int (round_even (x / ?ulp)) - x / ?ulp\<bar> * ?ulp"
    by simp
  finally have "\<bar>round_double x - x\<bar> = \<bar>of_int (round_even (x / ?ulp)) - x / ?ulp\<bar> * ?ulp" .
  also have "\<dots> \<le> 1 / 2 * ?ulp"
    using round_even_error [of "x / ?ulp"] up by (intro mult_right_mono) simp_all
  also have "\<dots> = 2 powr of_int ?e / 2 ^ 53"
    by (simp add: powr_diff)
  also have "\<dots> \<le> \<bar>x\<bar> / 2 ^ 53"
    using b by (simp add: divide_right_mono)
  finally show ?thesis .
qed


text \<open>The same for a natural exponent \<open>e \<le> 52\<close>, where the multiples are those of
  \<open>1 / 2^(52-e)\<close>.\<close>

lemma round_double_binade:
  assumes "2 ^ e \<le> \<bar>x\<bar>" "\<bar>x\<bar> < 2 ^ Suc e" "e \<le> 52"
  shows "round_double x = of_int (round_even (x * 2 ^ (52 - e))) / 2 ^ (52 - e)"
proof -
  have "2 powr of_int (int e) \<le> \<bar>x\<bar>" "\<bar>x\<bar> < 2 powr of_int (int e + 1)"
    using assms(1,2) by (simp_all add: powr_realpow powr_add)
  then have r: "round_double x =
      of_int (round_even (x / 2 powr (of_int (int e) - 52))) * 2 powr (of_int (int e) - 52)"
    by (rule round_double_powr)
  have "(2::real) powr (of_int (int e) - 52) = 2 powr (- real (52 - e))"
    using assms(3) by (simp add: of_nat_diff)
  also have "\<dots> = inverse (2 ^ (52 - e))"
    by (simp only: powr_minus) (simp add: powr_realpow)
  finally have ulp: "(2::real) powr (of_int (int e) - 52) = inverse (2 ^ (52 - e))" .
  show ?thesis
    unfolding r ulp by (simp add: divide_inverse)
qed

text \<open>A draw below 1, scaled by a length, does not round up to the length.\<close>

lemma round_double_scaled_less:
  fixes u :: real and n :: nat
  assumes "0 \<le> u" "u \<le> 1 - 1 / 2 ^ 53" "0 < n" "n < 2 ^ 53"
  shows "round_double (u * real n) < real n"
proof -
  let ?N = "real n"
  let ?x = "u * ?N"
  have N1: "1 \<le> ?N" using assms(3) by simp
  have x0: "0 \<le> ?x" using assms(1) by simp
  have "?x \<le> (1 - 1 / 2 ^ 53) * ?N"
    using assms(2) N1 by (intro mult_right_mono) simp_all
  then have xle: "?x \<le> ?N - ?N / 2 ^ 53" by (simp add: algebra_simps)
  define e where "e = \<lfloor>log 2 ?N\<rfloor>"
  have Npos: "0 < ?N" using N1 by simp
  have b: "2 powr of_int e \<le> ?N" "?N < 2 powr of_int (e + 1)"
    using binade_exists [OF Npos] unfolding e_def by blast+
  have "?N < 2 powr of_int 53"
  proof -
    have "?N < real (2 ^ 53)" using assms(4) by (simp only: of_nat_less_iff)
    then show ?thesis by simp
  qed
  then have "2 powr of_int e < (2::real) powr of_int 53" using b(1) by linarith
  then have "(of_int e :: real) < of_int 53" by (simp only: powr_less_cancel_iff)
  then have e52: "e \<le> 52" by simp
  show ?thesis
  proof (cases "2 powr of_int e \<le> ?x")
    case True
    have xlt: "?x < 2 powr of_int (e + 1)" using xle b(2) Npos by (smt (verit) divide_pos_pos zero_less_power)
    let ?ulp = "2 powr (of_int e - 52) :: real"
    have up: "0 < ?ulp" by simp
    have ax: "\<bar>?x\<bar> = ?x" using x0 by simp
    have r: "round_double ?x = of_int (round_even (?x / ?ulp)) * ?ulp"
      using round_double_powr [of e ?x] True xlt unfolding ax by simp
    define M where "M = int n * 2 ^ nat (52 - e)"
    have "?N / ?ulp = ?N * 2 powr (of_int (52 - e))"
      by (simp add: powr_diff field_simps)
    also have "\<dots> = ?N * 2 powr (real (nat (52 - e)))"
      using e52 by simp
    also have "\<dots> = ?N * 2 ^ nat (52 - e)"
      by (simp add: powr_realpow)
    also have "\<dots> = of_int M" by (simp add: M_def)
    finally have M: "?N / ?ulp = of_int M" .
    have "2 powr of_int e < ?N" using True xle Npos by (smt (verit) divide_pos_pos zero_less_power)
    then have "2 powr of_int e / ?ulp < ?N / ?ulp" by (rule divide_strict_right_mono) simp
    moreover have "2 powr of_int e / ?ulp = 2 ^ 52" by (simp add: powr_diff)
    ultimately have Mgt: "2 ^ 52 < (of_int M :: real)" using M by simp
    have "?x / ?ulp \<le> (?N - ?N / 2 ^ 53) / ?ulp"
      by (rule divide_right_mono [OF xle]) simp
    also have "\<dots> = of_int M - of_int M / 2 ^ 53"
      using M by (simp add: diff_divide_distrib)
    also have "\<dots> < of_int M - 1 / 2" using Mgt by simp
    finally have "round_even (?x / ?ulp) < M" by (rule round_even_less)
    then have "round_even (?x / ?ulp) \<le> M - 1" by simp
    then have "(of_int (round_even (?x / ?ulp)) :: real) \<le> of_int (M - 1)"
      by (simp only: of_int_le_iff)
    then have "of_int (round_even (?x / ?ulp)) * ?ulp \<le> of_int (M - 1) * ?ulp"
      using up by (intro mult_right_mono) simp_all
    also have "\<dots> = ?N - ?ulp"
      using M up by (simp add: left_diff_distrib field_simps)
    also have "\<dots> < ?N" using up by simp
    finally show ?thesis using r by simp
  next
    case False
    then have xl: "?x < 2 powr of_int e" by simp
    show ?thesis
    proof (cases "2 powr of_int e < ?N")
      case True
      then show ?thesis using round_double_le_power [OF x0 xl] by linarith
    next
      case False
      then have N: "?N = 2 powr of_int e" using b(1) by simp
      show ?thesis
      proof (cases "?x < 2 powr of_int (e - 1)")
        case True
        have "(2::real) powr of_int (e - 1) < 2 powr of_int e"
          by simp
        then show ?thesis using round_double_le_power [OF x0 True] N by linarith
      next
        case False
        then have lo: "2 powr of_int (e - 1) \<le> ?x" by simp
        have hi: "?x < 2 powr of_int (e - 1 + 1)" using xl by simp
        let ?ulp = "2 powr (of_int (e - 1) - 52) :: real"
        have up: "0 < ?ulp" by simp
        have ax: "\<bar>?x\<bar> = ?x" using x0 by simp
        have r: "round_double ?x = of_int (round_even (?x / ?ulp)) * ?ulp"
          using round_double_powr [of "e - 1" ?x] lo hi unfolding ax by simp
        have Nu: "?N / ?ulp = 2 ^ 53" unfolding N by (simp add: powr_diff)
        have "?x / ?ulp \<le> (?N - ?N / 2 ^ 53) / ?ulp"
          by (rule divide_right_mono [OF xle]) simp
        also have "\<dots> = ?N / ?ulp - ?N / ?ulp / 2 ^ 53"
          by (simp add: diff_divide_distrib)
        also have "\<dots> = of_int (2 ^ 53 - 1)" unfolding Nu by simp
        finally have "round_even (?x / ?ulp) \<le> 2 ^ 53 - 1" by (rule round_even_le)
        then have "(of_int (round_even (?x / ?ulp)) :: real) \<le> of_int (2 ^ 53 - 1)"
          by (simp only: of_int_le_iff)
        then have "of_int (round_even (?x / ?ulp)) * ?ulp \<le> of_int (2 ^ 53 - 1) * ?ulp"
          using up by (intro mult_right_mono) simp_all
        also have "\<dots> = ?N - ?ulp"
          using Nu up by (simp add: left_diff_distrib field_simps)
        also have "\<dots> < ?N" using up by simp
        finally show ?thesis using r by simp
      qed
    qed
  qed
qed


lemma round_double_zero [simp]: "round_double 0 = 0"
  by (simp add: round_double_def)

text \<open>A multiple of \<open>1 / 2^(52-e)\<close> in \<open>[2^e, 2^(e+1))\<close> is a double.\<close>

lemma round_double_exact:
  assumes "2 ^ e \<le> \<bar>x\<bar>" "\<bar>x\<bar> < 2 ^ Suc e" "e \<le> 52" "x * 2 ^ (52 - e) = of_int k"
  shows "round_double x = x"
proof -
  have "round_double x = of_int (round_even (of_int k)) / 2 ^ (52 - e)"
    using round_double_binade [OF assms(1) assms(2) assms(3)] assms(4) by simp
  also have "\<dots> = x * 2 ^ (52 - e) / 2 ^ (52 - e)"
    using assms(4) by simp
  finally show ?thesis by simp
qed

lemma randomInterval_samples:
  "randomInterval 0 3000 7000 = 3000"
  "randomInterval 0 5000 10000 = 5000"
  "randomInterval 0 60000 120000 = 60000"
  "randomInterval (1 / 2) 1 5 = 3"
proof -
  have a: "round_double 3000 = 3000"
    by (rule round_double_exact [of 11 _ "3000 * 2 ^ 41"]) simp_all
  have b: "round_double 5000 = 5000"
    by (rule round_double_exact [of 12 _ "5000 * 2 ^ 40"]) simp_all
  have c: "round_double 60000 = 60000"
    by (rule round_double_exact [of 15 _ "60000 * 2 ^ 37"]) simp_all
  have d: "round_double (5 / 2) = 5 / 2"
    by (rule round_double_exact [of 1 _ "5 * 2 ^ 50"]) simp_all
  have e: "round_double (7 / 2) = 7 / 2"
    by (rule round_double_exact [of 1 _ "7 * 2 ^ 50"]) simp_all
  show "randomInterval 0 3000 7000 = 3000" by (simp add: randomInterval_def a)
  show "randomInterval 0 5000 10000 = 5000" by (simp add: randomInterval_def b)
  show "randomInterval 0 60000 120000 = 60000" by (simp add: randomInterval_def c)
  have "randomInterval (1 / 2) 1 5 = \<lfloor>round_double (round_double (5 / 2) + 1)\<rfloor>"
    by (simp add: randomInterval_def)
  also have "\<dots> = \<lfloor>round_double (7 / 2)\<rfloor>" by (simp add: d)
  also have "\<dots> = 3" by (simp add: e floor_eq_iff)
  finally show "randomInterval (1 / 2) 1 5 = 3" .
qed

lemma round_double_one [simp]: "round_double 1 = 1"
  by (rule round_double_exact [of 0 _ "2 ^ 52"]) simp_all

lemma voteForMain_samples: "voteForMain (1 / 2) = True" "voteForMain (1 / 8) = False"
proof -
  have "(2::real) powr of_int (- 3) \<le> 0.2" "(0.2::real) < 2 powr of_int (- 3 + 1)"
    by (simp_all add: powr_minus)
  from round_double_binade_bounds [OF this]
  have "1 / 8 \<le> round_double 0.2" "round_double 0.2 \<le> 1 / 4"
    by (simp_all add: powr_minus)
  then show "voteForMain (1 / 2) = True" "voteForMain (1 / 8) = False"
    by (simp_all add: voteForMain_def)
qed

lemma voteForMain_tb_sample:
  "mainVotePercentage (voting CONFIG) = 100 \<Longrightarrow> voteForMain_tb CONFIG r = (r < 1)"
  by (simp add: voteForMain_tb_def)

lemma chooseButtonId_main: "chooseButtonId sel True u = Some (mainVoteButtonId sel)"
  by (simp add: chooseButtonId_def)

lemma chooseButtonId_samples:
  "alternativeVoteButtonIds sel = [a, b] \<Longrightarrow> chooseButtonId sel False (1 / 2) = Some b"
  "alternativeVoteButtonIds sel = [a, b] \<Longrightarrow> chooseButtonId sel False (3 / 4) = Some b"
proof -
  have r: "round_double (3 / 2) = 3 / 2"
    by (rule round_double_exact [of 0 _ "3 * 2 ^ 51"]) simp_all
  have f: "\<lfloor>3 / 2 :: real\<rfloor> = 1" by (simp add: floor_eq_iff)
  show "alternativeVoteButtonIds sel = [a, b] \<Longrightarrow> chooseButtonId sel False (1 / 2) = Some b"
    by (simp add: chooseButtonId_def js_index_def)
  show "alternativeVoteButtonIds sel = [a, b] \<Longrightarrow> chooseButtonId sel False (3 / 4) = Some b"
    by (simp add: chooseButtonId_def js_index_def r f)
qed

subsection \<open>The loop of voteMultipleTimes\<close>

lemma vote_iteration_votes:
  "votes (ledger (snd (vote_iteration sel decide i minDelay maxDelay ob s))) =
     votes (ledger s) @ (if confirmed ob then [record_of sel decide ob] else [])"
  by (simp add: vote_iteration_def confirmed_def record_of_def Let_def
      split: option.splits sum.splits bool.splits)

lemma vote_iteration_result:
  "fst (vote_iteration sel decide i minDelay maxDelay ob s) =
     (case raising ob of Some err \<Rightarrow> Inl err | None \<Rightarrow> Inr ())"
  by (simp add: vote_iteration_def raising_def Let_def
      split: option.splits sum.splits bool.splits)

lemma confirmed_not_raising: "confirmed ob \<Longrightarrow> raising ob = None"
  by (simp add: confirmed_def raising_def)

text \<open>The ledger after the loop: the records of the confirmed iterations, up to the first
  iteration that throws.\<close>

lemma voteMultipleTimes_loop_votes:
  "votes (ledger (snd (voteMultipleTimes_loop sel decide ntimes minDelay maxDelay obs i s))) =
     votes (ledger s) @
       map (\<lambda>j. record_of sel decide (obs j))
         (filter (\<lambda>j. confirmed (obs j))
            (takeWhile (\<lambda>j. raising (obs j) = None) [i..ntimes - 1]))"
proof (induction sel decide ntimes minDelay maxDelay obs i s rule: voteMultipleTimes_loop.induct)
  case (1 sel decide ntimes minDelay maxDelay obs i s)
  show ?case
  proof (cases "i < ntimes")
    case False
    then show ?thesis by (simp add: voteMultipleTimes_loop.simps)
  next
    case True
    obtain r s1 where it: "vote_iteration sel decide i minDelay maxDelay (obs i) s = (r, s1)"
      by (cases "vote_iteration sel decide i minDelay maxDelay (obs i) s")
    have v1: "votes (ledger s1) =
        votes (ledger s) @ (if confirmed (obs i) then [record_of sel decide (obs i)] else [])"
      using vote_iteration_votes [of sel decide i minDelay maxDelay "obs i" s] it by simp
    have r1: "r = (case raising (obs i) of Some err \<Rightarrow> Inl err | None \<Rightarrow> Inr ())"
      using vote_iteration_result [of sel decide i minDelay maxDelay "obs i" s] it by simp
    have up: "[i..ntimes - 1] = i # [i + 1..ntimes - 1]"
      using True by (simp add: upto_rec1)
    show ?thesis
    proof (cases "raising (obs i)")
      case (Some err)
      then have "\<not> confirmed (obs i)" using confirmed_not_raising by fastforce
      then show ?thesis
        using True it v1 r1 up Some by (simp add: voteMultipleTimes_loop.simps [of _ _ _ _ _ _ i])
    next
      case None
      then have r: "r = Inr ()" using r1 by simp
      have "votes (ledger (snd (voteMultipleTimes_loop sel decide ntimes minDelay maxDelay obs
                (i + 1) s1))) =
          votes (ledger s1) @
            map (\<lambda>j. record_of sel decide (obs j))
              (filter (\<lambda>j. confirmed (obs j))
                 (takeWhile (\<lambda>j. raising (obs j) = None) [i + 1..ntimes - 1]))"
        using "1.IH" [OF True it [symmetric, unfolded r] refl] .
      then show ?thesis
        using True it v1 up r None by (simp add: voteMultipleTimes_loop.simps [of _ _ _ _ _ _ i])
    qed
  qed
qed

text \<open>The result of the loop: the exception of the first iteration that throws, and \<^verbatim>\<open>true\<close>
  when there is none.\<close>

lemma voteMultipleTimes_loop_result:
  "fst (voteMultipleTimes_loop sel decide ntimes minDelay maxDelay obs i s) =
     (case List.find (\<lambda>j. raising (obs j) \<noteq> None) [i..ntimes - 1] of
        None \<Rightarrow> Inr True
      | Some j \<Rightarrow> Inl (the (raising (obs j))))"
proof (induction sel decide ntimes minDelay maxDelay obs i s rule: voteMultipleTimes_loop.induct)
  case (1 sel decide ntimes minDelay maxDelay obs i s)
  show ?case
  proof (cases "i < ntimes")
    case False
    then show ?thesis by (simp add: voteMultipleTimes_loop.simps)
  next
    case True
    obtain r s1 where it: "vote_iteration sel decide i minDelay maxDelay (obs i) s = (r, s1)"
      by (cases "vote_iteration sel decide i minDelay maxDelay (obs i) s")
    have r1: "r = (case raising (obs i) of Some err \<Rightarrow> Inl err | None \<Rightarrow> Inr ())"
      using vote_iteration_result [of sel decide i minDelay maxDelay "obs i" s] it by simp
    have up: "[i..ntimes - 1] = i # [i + 1..ntimes - 1]"
      using True by (simp add: upto_rec1)
    show ?thesis
    proof (cases "raising (obs i)")
      case (Some err)
      then show ?thesis
        using True it r1 up by (simp add: voteMultipleTimes_loop.simps [of _ _ _ _ _ _ i])
    next
      case None
      then have r: "r = Inr ()" using r1 by simp
      show ?thesis
        using "1.IH" [OF True it [symmetric, unfolded r] refl] True it up r None
        by (simp add: voteMultipleTimes_loop.simps [of _ _ _ _ _ _ i])
    qed
  qed
qed

lemma voteMultipleTimes_ledger:
  "ledger (snd (voteMultipleTimes sel ntimes minDelay maxDelay obs s)) =
     ledger (snd (voteMultipleTimes_loop sel voteForMain ntimes minDelay maxDelay obs 0 s))"
  by (simp add: voteMultipleTimes_def split: prod.splits sum.splits)

lemma voteMultipleTimes_result:
  "fst (voteMultipleTimes sel ntimes minDelay maxDelay obs s) =
     fst (voteMultipleTimes_loop sel voteForMain ntimes minDelay maxDelay obs 0 s)"
  by (simp add: voteMultipleTimes_def split: prod.splits sum.splits)

lemma length_filter_takeWhile: "length (filter P (takeWhile Q xs)) \<le> length (filter P xs)"
  by (induction xs) auto

lemma loop_appends_at_most:
  "\<exists>new. votes (ledger (snd (voteMultipleTimes_loop sel decide ntimes minDelay maxDelay obs 0 s)))
            = votes (ledger s) @ new
        \<and> length new \<le> nat ntimes
        \<and> length new \<le> length (filter (\<lambda>j. confirmed (obs j)) [0..ntimes - 1])"
proof -
  let ?new = "map (\<lambda>j. record_of sel decide (obs j))
         (filter (\<lambda>j. confirmed (obs j))
            (takeWhile (\<lambda>j. raising (obs j) = None) [0..ntimes - 1]))"
  have a: "length ?new \<le> length (filter (\<lambda>j. confirmed (obs j)) [0..ntimes - 1])"
    by (simp add: length_filter_takeWhile)
  also have "\<dots> \<le> length [0..ntimes - 1]" by (rule length_filter_le)
  finally have b: "length ?new \<le> nat ntimes" by simp
  show ?thesis
    using voteMultipleTimes_loop_votes [of sel decide ntimes minDelay maxDelay obs 0 s] a b
    by blast
qed

lemma vote_iteration_miss:
  assumes "wait_button ob = None" "query_button ob = Inr True" "scroll_button ob = None"
    "click_button ob = None" "eval_confirmation ob = Inr d" "d \<noteq> ''block''"
  shows "fst (vote_iteration sel decide i minDelay maxDelay ob s) = Inr ()"
    and "\<exists>evs. trace (snd (vote_iteration sel decide i minDelay maxDelay ob s)) = trace s @ evs
           \<and> Console ConfirmationNotVisible \<in> set evs"
  using assms by (simp_all add: vote_iteration_def Let_def)

text \<open>The definitions that evaluate a run on given observations.\<close>

lemmas eval_defs = voteMultipleTimes_def voteMultipleTimes_tb_def voteMultipleTimes_loop.simps
  voteForMain_samples voteForMain_tb_sample chooseButtonId_main chooseButtonId_samples
  vote_iteration_def sample_selectors_def sample_iteration_def sample_batch_def sample_config_def
  initial_state_def button_selector_def emit_def push_vote_def
  randomInterval_samples button_missing_def js_index_def Let_def

subsection \<open>navigateWithRetry\<close>

lemma navigateWithRetry_loop_trace:
  "\<exists>evs. trace (snd (navigateWithRetry_loop url retries timeout ob i s)) = trace s @ evs"
proof (induction url retries timeout ob i s rule: navigateWithRetry_loop.induct)
  case (1 url retries timeout ob i s)
  show ?case
  proof (cases "i < retries")
    case False
    then show ?thesis by (simp add: navigateWithRetry_loop.simps [of _ _ _ _ i])
  next
    case True
    show ?thesis
    proof (cases "goto_result ob i")
      case None
      then show ?thesis using True by (simp add: navigateWithRetry_loop.simps [of _ _ _ _ i])
    next
      case (Some err)
      show ?thesis
      proof (cases "i < retries - 1")
        case False
        then show ?thesis
          using True Some by (simp add: navigateWithRetry_loop.simps [of _ _ _ _ i] Let_def)
      next
        case t: True
        from "1.IH" [OF True refl Some refl t]
        show ?thesis
          using True Some t by (auto simp add: navigateWithRetry_loop.simps [of _ _ _ _ i] Let_def)
      qed
    qed
  qed
qed

text \<open>The first success is attempt \<open>k\<close>: the result is \<^verbatim>\<open>true\<close> after \<open>k - i + 1\<close> calls of \<^verbatim>\<open>page.goto\<close>.\<close>

lemma navigate_success:
  assumes "i \<le> k" "k < retries" "goto_result ob k = None"
    "\<forall>j. i \<le> j \<and> j < k \<longrightarrow> goto_result ob j \<noteq> None"
  shows "fst (navigateWithRetry_loop url retries timeout ob i s) = Some True
     \<and> (\<exists>evs. trace (snd (navigateWithRetry_loop url retries timeout ob i s)) = trace s @ evs
          \<and> length (filter is_goto evs) = nat (k - i + 1))"
  using assms
proof (induction "nat (k - i)" arbitrary: i s)
  case 0
  then have "i = k" by simp
  then have "navigateWithRetry_loop url retries timeout ob i s = (Some True, emit (Goto url timeout) s)"
    using 0 by (subst navigateWithRetry_loop.simps) (simp add: Let_def)
  then show ?case using \<open>i = k\<close> by simp
next
  case (Suc n)
  then have lt: "i < k" by linarith
  then obtain err where e: "goto_result ob i = Some err" using Suc.prems(4) by fastforce
  have i1: "i < retries - 1" "i < retries" using lt Suc.prems(2) by linarith+
  let ?s = "emit (Sleep (Ms (of_int (randomInterval (backoff_random ob i) 5000 10000))))
                     (emit (Console RetryingAfterDelay) (emit (Console (NavigationFailed (i + 1) retries (message err))) (emit (Goto url timeout) s)))"
  have step: "navigateWithRetry_loop url retries timeout ob i s = navigateWithRetry_loop url retries timeout ob (i + 1) ?s"
    using e i1 by (simp add: navigateWithRetry_loop.simps [of _ _ _ _ i] Let_def)
  have "n = nat (k - (i + 1))" using Suc.hyps(2) by linarith
  from Suc.hyps(1) [OF this, of ?s] lt Suc.prems
  obtain evs where "fst (navigateWithRetry_loop url retries timeout ob (i + 1) ?s) = Some True"
    "trace (snd (navigateWithRetry_loop url retries timeout ob (i + 1) ?s)) = trace ?s @ evs"
    "length (filter is_goto evs) = nat (k - (i + 1) + 1)"
    by fastforce
  then show ?case unfolding step using lt by (auto simp: nat_add_distrib)
qed

text \<open>Every attempt fails: the result is \<^verbatim>\<open>false\<close> after \<open>retries - i\<close> calls.\<close>

lemma navigate_failure:
  assumes "i < retries" "\<forall>j. i \<le> j \<and> j < retries \<longrightarrow> goto_result ob j \<noteq> None"
  shows "fst (navigateWithRetry_loop url retries timeout ob i s) = Some False
     \<and> (\<exists>evs. trace (snd (navigateWithRetry_loop url retries timeout ob i s)) = trace s @ evs
          \<and> length (filter is_goto evs) = nat (retries - i))"
  using assms
proof (induction "nat (retries - 1 - i)" arbitrary: i s)
  case 0
  then have l: "i = retries - 1" by simp
  then obtain err where e: "goto_result ob i = Some err" using 0 by fastforce
  then have "navigateWithRetry_loop url retries timeout ob i s =
      (Some False, emit (Console MaximumRetriesExceeded)
         (emit (Console (NavigationFailed (i + 1) retries (message err))) (emit (Goto url timeout) s)))"
    using 0 l by (subst navigateWithRetry_loop.simps) (simp add: Let_def)
  then show ?case using l by simp
next
  case (Suc n)
  then have lt: "i < retries - 1" by linarith
  then obtain err where e: "goto_result ob i = Some err" using Suc.prems(2) by fastforce
  let ?s = "emit (Sleep (Ms (of_int (randomInterval (backoff_random ob i) 5000 10000))))
                     (emit (Console RetryingAfterDelay) (emit (Console (NavigationFailed (i + 1) retries (message err))) (emit (Goto url timeout) s)))"
  have step: "navigateWithRetry_loop url retries timeout ob i s = navigateWithRetry_loop url retries timeout ob (i + 1) ?s"
    using e lt by (simp add: navigateWithRetry_loop.simps [of _ _ _ _ i] Let_def)
  have "n = nat (retries - 1 - (i + 1))" using Suc.hyps(2) by linarith
  from Suc.hyps(1) [OF this, of ?s] lt Suc.prems
  obtain evs where "fst (navigateWithRetry_loop url retries timeout ob (i + 1) ?s) = Some False"
    "trace (snd (navigateWithRetry_loop url retries timeout ob (i + 1) ?s)) = trace ?s @ evs"
    "length (filter is_goto evs) = nat (retries - (i + 1))"
    by fastforce
  then show ?case unfolding step using lt by (auto simp: nat_diff_distrib)
qed

lemma navigateWithRetry_loop_ledger:
  "ledger (snd (navigateWithRetry_loop url retries timeout ob i s)) = ledger s"
proof (induction url retries timeout ob i s rule: navigateWithRetry_loop.induct)
  case (1 url retries timeout ob i s)
  show ?case
  proof (cases "i < retries")
    case False
    then show ?thesis by (simp add: navigateWithRetry_loop.simps [of _ _ _ _ i])
  next
    case True
    show ?thesis
    proof (cases "goto_result ob i")
      case None
      then show ?thesis using True by (simp add: navigateWithRetry_loop.simps [of _ _ _ _ i])
    next
      case (Some err)
      show ?thesis
      proof (cases "i < retries - 1")
        case False
        then show ?thesis
          using True Some by (simp add: navigateWithRetry_loop.simps [of _ _ _ _ i] Let_def)
      next
        case t: True
        from "1.IH" [OF True refl Some refl t]
        show ?thesis
          using True Some t by (simp add: navigateWithRetry_loop.simps [of _ _ _ _ i] Let_def)
      qed
    qed
  qed
qed

lemmas nav_eval_defs = navigateWithRetry_def navigateWithRetry_loop.simps sample_nav_def
  initial_state_def emit_def randomInterval_samples Let_def attempts_def

subsection \<open>saveVoteLog\<close>





lemmas save_eval_defs = saveVoteLog_def saveVoteLog_tb_def saveVoteLog_to_def count_vote_def
  set_prop_def get_prop_def inherited_def
  saveAndExit_tb_def deliver_def handlers_def sample_state_def emit_def Let_def

subsection \<open>The outer loop\<close>

lemma navigateWithRetry_result_3:
  "fst (navigateWithRetry url 3 timeout ob s) = Some (navigates ob)"
  by (simp add: navigateWithRetry_def navigateWithRetry_loop.simps navigates_def Let_def
      split: option.splits)

lemma navigateWithRetry_ledger:
  "ledger (snd (navigateWithRetry url retries timeout ob s)) = ledger s"
  by (simp add: navigateWithRetry_def navigateWithRetry_loop_ledger)

lemma handleConsents_ledger: "ledger (handleConsents sel ob s) = ledger s"
  by (simp add: handleConsents_def Let_def split: option.splits)

lemma find_None_list_all: "(List.find P xs = None) = list_all (\<lambda>x. \<not> P x) xs"
  by (induction xs) auto

lemma loop_result_completes:
  "(fst (voteMultipleTimes_loop sel decide n minDelay maxDelay obs 0 s) = Inr True)
     = batch_completes obs n"
proof -
  have "(fst (voteMultipleTimes_loop sel decide n minDelay maxDelay obs 0 s) = Inr True)
      = (List.find (\<lambda>j. raising (obs j) \<noteq> None) [0..n - 1] = None)"
    by (simp add: voteMultipleTimes_loop_result split: option.splits)
  then show ?thesis
    by (simp add: find_None_list_all batch_completes_def)
qed

lemma loop_result_cases:
  "fst (voteMultipleTimes_loop sel decide n minDelay maxDelay obs 0 s) = Inr True
   \<or> (\<exists>err. fst (voteMultipleTimes_loop sel decide n minDelay maxDelay obs 0 s) = Inl err)"
  by (simp add: voteMultipleTimes_loop_result split: option.splits)

lemma main_try_result:
  "fst (main_try CONFIG ob tot s) =
     (if top20_wait ob = None \<and> batch_completes (batch ob) (randomInterval (rnd_batch ob) 1 5)
      then tot + randomInterval (rnd_batch ob) 1 5 else tot)"
proof (cases "top20_wait ob")
  case (Some err)
  then show ?thesis by (simp add: main_try_def Let_def)
next
  case None
  let ?n = "randomInterval (rnd_batch ob) 1 5"
  let ?s3 = "emit (Console (WillVote ?n))
     (emit (WaitForSelector (top20List (selectors CONFIG)))
        (emit (Console WaitingForTop20) (emit (Sleep (Ms 1000))
           (handleConsents (selectors CONFIG) (consents ob) s))))"
  obtain r s4 where v: "voteMultipleTimes (selectors CONFIG) ?n 3000 7000 (batch ob) ?s3 = (r, s4)"
    by (cases "voteMultipleTimes (selectors CONFIG) ?n 3000 7000 (batch ob) ?s3")
  have r: "r = fst (voteMultipleTimes_loop (selectors CONFIG) voteForMain ?n 3000 7000 (batch ob) 0 ?s3)"
    using voteMultipleTimes_result [of "selectors CONFIG" ?n 3000 7000 "batch ob" ?s3] v by simp
  have c: "(r = Inr True) = batch_completes (batch ob) ?n"
    unfolding r by (rule loop_result_completes)
  have d: "r = Inr True \<or> (\<exists>err. r = Inl err)"
    unfolding r by (rule loop_result_cases)
  show ?thesis using None v c d by (auto simp: main_try_def Let_def)
qed

lemma main_try_votes:
  "votes (ledger (snd (main_try CONFIG ob tot s))) =
     votes (ledger s) @
       (if top20_wait ob = None
        then batch_records (selectors CONFIG) voteForMain (batch ob)
               (randomInterval (rnd_batch ob) 1 5)
        else [])"
proof (cases "top20_wait ob")
  case (Some err)
  then show ?thesis by (simp add: main_try_def Let_def handleConsents_ledger)
next
  case None
  let ?n = "randomInterval (rnd_batch ob) 1 5"
  let ?s3 = "emit (Console (WillVote ?n))
     (emit (WaitForSelector (top20List (selectors CONFIG)))
        (emit (Console WaitingForTop20) (emit (Sleep (Ms 1000))
           (handleConsents (selectors CONFIG) (consents ob) s))))"
  obtain r s4 where v: "voteMultipleTimes (selectors CONFIG) ?n 3000 7000 (batch ob) ?s3 = (r, s4)"
    by (cases "voteMultipleTimes (selectors CONFIG) ?n 3000 7000 (batch ob) ?s3")
  have "votes (ledger s4) = votes (ledger ?s3) @ batch_records (selectors CONFIG) voteForMain (batch ob) ?n"
    using voteMultipleTimes_ledger [of "selectors CONFIG" ?n 3000 7000 "batch ob" ?s3] v
      voteMultipleTimes_loop_votes [of "selectors CONFIG" voteForMain ?n 3000 7000 "batch ob" 0 ?s3]
    by (simp add: batch_records_def)
  then have l: "votes (ledger s4) = votes (ledger s) @ batch_records (selectors CONFIG) voteForMain (batch ob) ?n"
    by (simp add: handleConsents_ledger)
  show ?thesis using None v l by (auto simp: main_try_def Let_def split: sum.splits)
qed

lemma main_body_result:
  "fst (main_body CONFIG ob tot s) =
     (case launch ob of
        Some err \<Rightarrow> Inl err
      | None \<Rightarrow>
          Inr (if navigates (nav ob) \<and> top20_wait ob = None
                  \<and> batch_completes (batch ob) (randomInterval (rnd_batch ob) 1 5)
               then tot + randomInterval (rnd_batch ob) 1 5 else tot))"
proof (cases "launch ob")
  case (Some err)
  then show ?thesis by (simp add: main_body_def Let_def)
next
  case None
  let ?s1 = "emit LaunchBrowser (emit (Console StartingSession) s)"
  obtain b s2 where n: "navigateWithRetry (targetPage CONFIG) 3 60000 (nav ob) ?s1 = (b, s2)"
    by (cases "navigateWithRetry (targetPage CONFIG) 3 60000 (nav ob) ?s1")
  have b: "b = Some (navigates (nav ob))"
    using navigateWithRetry_result_3 [of "targetPage CONFIG" 60000 "nav ob" ?s1] n by simp
  obtain t s3 where m: "main_try CONFIG ob tot s2 = (t, s3)"
    by (cases "main_try CONFIG ob tot s2")
  have t: "t = (if top20_wait ob = None \<and> batch_completes (batch ob) (randomInterval (rnd_batch ob) 1 5)
      then tot + randomInterval (rnd_batch ob) 1 5 else tot)"
    using main_try_result [of CONFIG ob tot s2] m by simp
  show ?thesis using None n b m t by (simp add: main_body_def Let_def)
qed

lemma main_body_votes:
  "votes (ledger (snd (main_body CONFIG ob tot s))) =
     votes (ledger s) @
       (if launch ob = None \<and> navigates (nav ob) \<and> top20_wait ob = None
        then batch_records (selectors CONFIG) voteForMain (batch ob)
               (randomInterval (rnd_batch ob) 1 5)
        else [])"
proof (cases "launch ob")
  case (Some err)
  then show ?thesis by (simp add: main_body_def Let_def)
next
  case None
  let ?s1 = "emit LaunchBrowser (emit (Console StartingSession) s)"
  obtain b s2 where n: "navigateWithRetry (targetPage CONFIG) 3 60000 (nav ob) ?s1 = (b, s2)"
    by (cases "navigateWithRetry (targetPage CONFIG) 3 60000 (nav ob) ?s1")
  have b: "b = Some (navigates (nav ob))"
    using navigateWithRetry_result_3 [of "targetPage CONFIG" 60000 "nav ob" ?s1] n by simp
  have l2: "ledger s2 = ledger s"
    using navigateWithRetry_ledger [of "targetPage CONFIG" 3 60000 "nav ob" ?s1] n by simp
  obtain t s3 where m: "main_try CONFIG ob tot s2 = (t, s3)"
    by (cases "main_try CONFIG ob tot s2")
  have l3: "votes (ledger s3) = votes (ledger s) @
       (if top20_wait ob = None
        then batch_records (selectors CONFIG) voteForMain (batch ob)
               (randomInterval (rnd_batch ob) 1 5)
        else [])"
    using main_try_votes [of CONFIG ob tot s2] m l2 by simp
  show ?thesis using None n b m l2 l3 by (simp add: main_body_def Let_def)
qed

lemma main_try_tb_result:
  "fst (main_try_tb CONFIG ob tot s) =
     (if top20_wait ob = None \<and> batch_completes (batch ob) 5 then tot + 5 else tot)"
proof (cases "top20_wait ob")
  case (Some err)
  then show ?thesis by (simp add: main_try_tb_def Let_def)
next
  case None
  let ?s3 = "emit (Console (WillVote 5))
     (emit (WaitForSelector (top20List (selectors CONFIG)))
        (emit (Console WaitingForTop20) (emit (Sleep (Ms 1000))
           (handleConsents (selectors CONFIG) (consents ob) s))))"
  obtain r s4 where
    v: "voteMultipleTimes_tb CONFIG (selectors CONFIG) 5 3000 7000 (batch ob) ?s3 = (r, s4)"
    by (cases "voteMultipleTimes_tb CONFIG (selectors CONFIG) 5 3000 7000 (batch ob) ?s3")
  have r: "r = fst (voteMultipleTimes_loop (selectors CONFIG) (voteForMain_tb CONFIG) 5 3000 7000
                 (batch ob) 0 ?s3)"
    using v by (simp add: voteMultipleTimes_tb_def)
  have c: "(r = Inr True) = batch_completes (batch ob) 5"
    unfolding r by (rule loop_result_completes)
  have d: "r = Inr True \<or> (\<exists>err. r = Inl err)"
    unfolding r by (rule loop_result_cases)
  show ?thesis using None v c d by (auto simp: main_try_tb_def Let_def)
qed

lemma main_try_tb_votes:
  "votes (ledger (snd (main_try_tb CONFIG ob tot s))) =
     votes (ledger s) @
       (if top20_wait ob = None
        then batch_records (selectors CONFIG) (voteForMain_tb CONFIG) (batch ob) 5
        else [])"
proof (cases "top20_wait ob")
  case (Some err)
  then show ?thesis by (simp add: main_try_tb_def Let_def handleConsents_ledger)
next
  case None
  let ?s3 = "emit (Console (WillVote 5))
     (emit (WaitForSelector (top20List (selectors CONFIG)))
        (emit (Console WaitingForTop20) (emit (Sleep (Ms 1000))
           (handleConsents (selectors CONFIG) (consents ob) s))))"
  obtain r s4 where
    v: "voteMultipleTimes_tb CONFIG (selectors CONFIG) 5 3000 7000 (batch ob) ?s3 = (r, s4)"
    by (cases "voteMultipleTimes_tb CONFIG (selectors CONFIG) 5 3000 7000 (batch ob) ?s3")
  have "votes (ledger s4) =
      votes (ledger ?s3) @ batch_records (selectors CONFIG) (voteForMain_tb CONFIG) (batch ob) 5"
    using v voteMultipleTimes_loop_votes [of "selectors CONFIG" "voteForMain_tb CONFIG" 5 3000 7000
        "batch ob" 0 ?s3]
    by (simp add: batch_records_def voteMultipleTimes_tb_def)
  then have l: "votes (ledger s4) =
      votes (ledger s) @ batch_records (selectors CONFIG) (voteForMain_tb CONFIG) (batch ob) 5"
    by (simp add: handleConsents_ledger)
  show ?thesis using None v l by (auto simp: main_try_tb_def Let_def split: sum.splits)
qed

lemma main_body_tb_result:
  "fst (main_body_tb CONFIG ob tot s) =
     (if \<not> isWithinVoteWindow CONFIG (utc_hour ob) then Inr tot
      else case launch ob of
             Some err \<Rightarrow> Inl err
           | None \<Rightarrow>
               Inr (if navigates (nav ob) \<and> top20_wait ob = None \<and> batch_completes (batch ob) 5
                    then tot + 5 else tot))"
proof (cases "isWithinVoteWindow CONFIG (utc_hour ob)")
  case False
  then show ?thesis by (simp add: main_body_tb_def Let_def)
next
  case w: True
  show ?thesis
  proof (cases "launch ob")
    case (Some err)
    then show ?thesis using w by (simp add: main_body_tb_def Let_def)
  next
    case None
    let ?s1 = "emit LaunchBrowser (emit (Console StartingSession) s)"
    obtain b s2 where n: "navigateWithRetry (targetPage CONFIG) 3 60000 (nav ob) ?s1 = (b, s2)"
      by (cases "navigateWithRetry (targetPage CONFIG) 3 60000 (nav ob) ?s1")
    have b: "b = Some (navigates (nav ob))"
      using navigateWithRetry_result_3 [of "targetPage CONFIG" 60000 "nav ob" ?s1] n by simp
    obtain t s3 where m: "main_try_tb CONFIG ob tot s2 = (t, s3)"
      by (cases "main_try_tb CONFIG ob tot s2")
    have t: "t = (if top20_wait ob = None \<and> batch_completes (batch ob) 5 then tot + 5 else tot)"
      using main_try_tb_result [of CONFIG ob tot s2] m by simp
    show ?thesis using w None n b m t by (simp add: main_body_tb_def Let_def)
  qed
qed

lemma main_body_tb_votes:
  "votes (ledger (snd (main_body_tb CONFIG ob tot s))) =
     votes (ledger s) @
       (if isWithinVoteWindow CONFIG (utc_hour ob) \<and> launch ob = None \<and> navigates (nav ob)
            \<and> top20_wait ob = None
        then batch_records (selectors CONFIG) (voteForMain_tb CONFIG) (batch ob) 5
        else [])"
proof (cases "isWithinVoteWindow CONFIG (utc_hour ob)")
  case False
  then show ?thesis by (simp add: main_body_tb_def Let_def)
next
  case w: True
  show ?thesis
  proof (cases "launch ob")
    case (Some err)
    then show ?thesis using w by (simp add: main_body_tb_def Let_def)
  next
    case None
    let ?s1 = "emit LaunchBrowser (emit (Console StartingSession) s)"
    obtain b s2 where n: "navigateWithRetry (targetPage CONFIG) 3 60000 (nav ob) ?s1 = (b, s2)"
      by (cases "navigateWithRetry (targetPage CONFIG) 3 60000 (nav ob) ?s1")
    have b: "b = Some (navigates (nav ob))"
      using navigateWithRetry_result_3 [of "targetPage CONFIG" 60000 "nav ob" ?s1] n by simp
    have l2: "ledger s2 = ledger s"
      using navigateWithRetry_ledger [of "targetPage CONFIG" 3 60000 "nav ob" ?s1] n by simp
    obtain t s3 where m: "main_try_tb CONFIG ob tot s2 = (t, s3)"
      by (cases "main_try_tb CONFIG ob tot s2")
    have l3: "votes (ledger s3) = votes (ledger s) @
         (if top20_wait ob = None
          then batch_records (selectors CONFIG) (voteForMain_tb CONFIG) (batch ob) 5
          else [])"
      using main_try_tb_votes [of CONFIG ob tot s2] m l2 by simp
    show ?thesis using w None n b m l2 l3 by (simp add: main_body_tb_def Let_def)
  qed
qed

lemma upto_0_2: "[0..2] = [0, 1, 2::int]"
  by (simp add: upto.simps)

lemma upto_0_4: "[0..4] = [0, 1, 2, 3, 4::int]"
  by (simp add: upto.simps)

subsection \<open>The choice of the target\<close>

lemma vote_iteration_first_event:
  "\<exists>evs. trace (snd (vote_iteration sel decide i minDelay maxDelay ob s)) =
     trace s @
       WaitForSelector (button_selector (chooseButtonId sel (decide (rnd_main ob)) (rnd_alt ob)))
         # evs"
  by (simp add: vote_iteration_def Let_def split: option.splits sum.splits bool.splits)

lemma choose_alternative:
  fixes u :: real
  assumes "0 \<le> u" "u \<le> 1 - 1 / 2 ^ 53" "alternativeVoteButtonIds sel \<noteq> []"
    "length (alternativeVoteButtonIds sel) < 2 ^ 53"
  shows "\<exists>j < length (alternativeVoteButtonIds sel).
           chooseButtonId sel False u = Some (alternativeVoteButtonIds sel ! j)
         \<and> real j \<le> round_double (u * real (length (alternativeVoteButtonIds sel)))
         \<and> round_double (u * real (length (alternativeVoteButtonIds sel))) < real j + 1"
proof -
  let ?n = "length (alternativeVoteButtonIds sel)"
  let ?y = "round_double (u * real ?n)"
  let ?k = "\<lfloor>?y\<rfloor>"
  have n: "0 < ?n" using assms(3) by simp
  have y0: "0 \<le> ?y" using assms(1) by (intro round_double_nonneg) simp
  have yn: "?y < real ?n" by (rule round_double_scaled_less [OF assms(1) assms(2) n assms(4)])
  have k0: "0 \<le> ?k" using y0 by simp
  have "?y < of_int (int ?n)" using yn by simp
  then have kn: "?k < int ?n" by (simp only: floor_less_iff)
  have j: "nat ?k < ?n" using k0 kn by linarith
  have r: "real (nat ?k) = of_int ?k" using k0 by simp
  have c: "chooseButtonId sel False u = Some (alternativeVoteButtonIds sel ! nat ?k)"
    using k0 kn by (simp add: chooseButtonId_def js_index_def)
  have "of_int ?k \<le> ?y" "?y < of_int ?k + 1" by linarith+
  then show ?thesis
    using j c unfolding r [symmetric] by blast
qed

lemma configured_probability:
  fixes p :: real
  assumes "0 \<le> p" "p \<le> 100"
  shows "0 \<le> round_double (p / 100)" "round_double (p / 100) \<le> 1"
    "\<bar>round_double (p / 100) - p / 100\<bar> \<le> 1 / 2 ^ 53"
proof -
  have p0: "0 \<le> p / 100" and p1: "p / 100 \<le> 1" using assms by simp_all
  show "0 \<le> round_double (p / 100)" using p0 by (rule round_double_nonneg)
  show "round_double (p / 100) \<le> 1"
  proof (cases "p / 100 < 1")
    case True
    then have "p / 100 < 2 powr of_int 0" by simp
    from round_double_le_power [OF p0 this] show ?thesis by simp
  next
    case False
    then have "p / 100 = 1" using p1 by simp
    then show ?thesis by simp
  qed
  have "\<bar>round_double (p / 100) - p / 100\<bar> \<le> \<bar>p / 100\<bar> / 2 ^ 53"
    by (rule round_double_error)
  also have "\<dots> \<le> 1 / 2 ^ 53"
    using p0 p1 by (intro divide_right_mono) simp_all
  finally show "\<bar>round_double (p / 100) - p / 100\<bar> \<le> 1 / 2 ^ 53" .
qed

section \<open>Claims\<close>

text \<open>
  C1. For every batch size \<open>n\<close>, in both variants, the records that \<^verbatim>\<open>voteMultipleTimes\<close> appends
  to the ledger are at most \<open>n\<close> (none when \<open>n\<close> is negative), and at most as many as there are
  iterations among \<open>0, \<dots>, n - 1\<close> whose confirmation check succeeds: the ledger after the
  batch is the ledger before it followed by the new records, also when the batch ends by an
  exception.
\<close>

theorem batch_appends_at_most_n:
  "(\<exists>new. votes (ledger (snd (voteMultipleTimes sel n minDelay maxDelay obs s)))
             = votes (ledger s) @ new
         \<and> length new \<le> nat n
         \<and> length new \<le> length (filter (\<lambda>j. confirmed (obs j)) [0..n - 1]))
   \<and> (\<exists>new. votes (ledger (snd (voteMultipleTimes_tb CONFIG sel n minDelay maxDelay obs s)))
             = votes (ledger s) @ new
         \<and> length new \<le> nat n
         \<and> length new \<le> length (filter (\<lambda>j. confirmed (obs j)) [0..n - 1]))"
  unfolding voteMultipleTimes_ledger voteMultipleTimes_tb_def
  using loop_appends_at_most by blast

theorem batch_appends_at_most_n_witness:
  "length (votes (ledger (snd (voteMultipleTimes sample_selectors 2 3000 7000 sample_batch
      initial_state)))) \<le> 2
   \<and> length (votes (ledger (snd (voteMultipleTimes_tb sample_config sample_selectors 2 3000 7000
      sample_batch initial_state)))) \<le> 2
   \<and> votes (ledger (snd (voteMultipleTimes sample_selectors 2 3000 7000 sample_batch
      initial_state))) = [\<lparr>buttonId = Some ''101'', timestamp = ''2024-05-01T10:00:00.000Z''\<rparr>]"
proof -
  have "votes (ledger (snd (voteMultipleTimes sample_selectors 2 3000 7000 sample_batch
      initial_state))) = [\<lparr>buttonId = Some ''101'', timestamp = ''2024-05-01T10:00:00.000Z''\<rparr>]"
    by (simp add: eval_defs)
  then show ?thesis
  using batch_appends_at_most_n [of sample_selectors 2 3000 7000 sample_batch initial_state
      sample_config]
  by (auto simp: initial_state_def)
qed


text \<open>
  C2. In an iteration of the loop of \<^verbatim>\<open>voteMultipleTimes\<close> (either variant), the record made of
  the chosen target and the time stamp is appended to the ledger if and only if the iteration
  gets as far as reading the computed \<^verbatim>\<open>display\<close> of the confirmation element after the click
  and reads \<^verbatim>\<open>'block'\<close>; otherwise the ledger is unchanged. When the value read is not
  \<^verbatim>\<open>'block'\<close>, the miss is written to the console, the iteration ends without an exception, and
  the loop goes on with iteration \<open>i + 1\<close>.
\<close>

theorem vote_recorded_iff_confirmation_visible:
  assumes "vote_iteration sel decide i minDelay maxDelay ob s = (r, s')"
  shows "((votes (ledger s') = votes (ledger s) @ [record_of sel decide ob]) = confirmed ob)
    \<and> (\<not> confirmed ob \<longrightarrow> votes (ledger s') = votes (ledger s))
    \<and> (wait_button ob = None \<and> query_button ob = Inr True \<and> scroll_button ob = None
         \<and> click_button ob = None \<and> eval_confirmation ob = Inr d \<and> d \<noteq> ''block'' \<longrightarrow>
         r = Inr () \<and> votes (ledger s') = votes (ledger s)
         \<and> (\<exists>evs. trace s' = trace s @ evs \<and> Console ConfirmationNotVisible \<in> set evs)
         \<and> (i < ntimes \<and> obs i = ob \<longrightarrow>
              voteMultipleTimes_loop sel decide ntimes minDelay maxDelay obs i s =
              voteMultipleTimes_loop sel decide ntimes minDelay maxDelay obs (i + 1) s'))"
proof -
  have v: "votes (ledger s') =
      votes (ledger s) @ (if confirmed ob then [record_of sel decide ob] else [])"
    using vote_iteration_votes [of sel decide i minDelay maxDelay ob s] assms by simp
  have 1: "(votes (ledger s') = votes (ledger s) @ [record_of sel decide ob]) = confirmed ob"
    using v by simp
  have 2: "\<not> confirmed ob \<longrightarrow> votes (ledger s') = votes (ledger s)"
    using v by simp
  have 3: "r = Inr () \<and> votes (ledger s') = votes (ledger s)
         \<and> (\<exists>evs. trace s' = trace s @ evs \<and> Console ConfirmationNotVisible \<in> set evs)
         \<and> (i < ntimes \<and> obs i = ob \<longrightarrow>
              voteMultipleTimes_loop sel decide ntimes minDelay maxDelay obs i s =
              voteMultipleTimes_loop sel decide ntimes minDelay maxDelay obs (i + 1) s')"
    if h: "wait_button ob = None \<and> query_button ob = Inr True \<and> scroll_button ob = None
         \<and> click_button ob = None \<and> eval_confirmation ob = Inr d \<and> d \<noteq> ''block''"
  proof -
    have r: "r = Inr ()"
      using vote_iteration_miss(1) [of ob d sel decide i minDelay maxDelay s] h assms by simp
    have nc: "\<not> confirmed ob" using h by (simp add: confirmed_def)
    have t: "\<exists>evs. trace s' = trace s @ evs \<and> Console ConfirmationNotVisible \<in> set evs"
      using vote_iteration_miss(2) [of ob d sel decide i minDelay maxDelay s] h assms by simp
    have c: "voteMultipleTimes_loop sel decide ntimes minDelay maxDelay obs i s =
              voteMultipleTimes_loop sel decide ntimes minDelay maxDelay obs (i + 1) s'"
      if "i < ntimes \<and> obs i = ob"
      using that assms r
      by (simp add: voteMultipleTimes_loop.simps [of sel decide ntimes minDelay maxDelay obs i s])
    show ?thesis using r nc 2 t c by blast
  qed
  show ?thesis using 1 2 3 by blast
qed

theorem vote_recorded_iff_confirmation_visible_witness:
  "confirmed (sample_iteration (1 / 2) ''block'')
   \<and> votes (ledger (snd (vote_iteration sample_selectors voteForMain 0 3000 7000
        (sample_iteration (1 / 2) ''block'') initial_state))) =
      [\<lparr>buttonId = Some ''101'', timestamp = ''2024-05-01T10:00:00.000Z''\<rparr>]
   \<and> \<not> confirmed (sample_iteration (1 / 2) ''none'')
   \<and> vote_iteration sample_selectors voteForMain 0 3000 7000
        (sample_iteration (1 / 2) ''none'') initial_state =
      (Inr (),
       \<lparr>ledger = \<lparr>votes = [], statistics = None\<rparr>,
        trace = [WaitForSelector (button_selector (Some ''101'')),
                 Query (button_selector (Some ''101'')), ScrollIntoView, Sleep (Ms 1000),
                 ClickButton, Console (ButtonClicked (Some ''101'') 1), Sleep (Ms 1500),
                 EvalDisplay ''#thanks'', Console ConfirmationNotVisible, Sleep (Ms 3000)]\<rparr>)"
proof -
  let ?it = "\<lambda>d. vote_iteration sample_selectors voteForMain 0 3000 7000
        (sample_iteration (1 / 2) d) initial_state"
  have c: "confirmed (sample_iteration (1 / 2) ''block'')"
    by (simp add: confirmed_def sample_iteration_def)
  have n: "\<not> confirmed (sample_iteration (1 / 2) ''none'')"
    by (simp add: confirmed_def sample_iteration_def)
  have r: "record_of sample_selectors voteForMain (sample_iteration (1 / 2) ''block'') =
      \<lparr>buttonId = Some ''101'', timestamp = ''2024-05-01T10:00:00.000Z''\<rparr>"
    by (simp add: record_of_def eval_defs)
  have a: "votes (ledger (snd (?it ''block''))) =
      [\<lparr>buttonId = Some ''101'', timestamp = ''2024-05-01T10:00:00.000Z''\<rparr>]"
    using vote_recorded_iff_confirmation_visible [OF prod.collapse [symmetric],
        of sample_selectors voteForMain 0 3000 7000 "sample_iteration (1 / 2) ''block''"
          initial_state] c r
    by (simp add: initial_state_def)
  have b: "?it ''none'' = (Inr (),
       \<lparr>ledger = \<lparr>votes = [], statistics = None\<rparr>,
        trace = [WaitForSelector (button_selector (Some ''101'')),
                 Query (button_selector (Some ''101'')), ScrollIntoView, Sleep (Ms 1000),
                 ClickButton, Console (ButtonClicked (Some ''101'') 1), Sleep (Ms 1500),
                 EvalDisplay ''#thanks'', Console ConfirmationNotVisible, Sleep (Ms 3000)]\<rparr>)"
    by (simp add: eval_defs)
  show ?thesis using a b c n by simp
qed


text \<open>
  C5. The claim is that an iteration whose vote button is not found within the bounded wait
  is logged and skipped, without an exception, and that the batch goes on. The code does
  this only when \<^verbatim>\<open>page.$\<close> returns \<^verbatim>\<open>null\<close> after the wait has succeeded. When the button does not
  appear within the 20000 ms, \<^verbatim>\<open>page.waitForSelector\<close> rejects, which the loop does not catch
  (\<^verbatim>\<open>handleConsents\<close> does, for its two selectors): in a batch of two iterations on a page
  without the button, the first iteration throws, the second is not run, the message
  \<^verbatim>\<open>Vote button not found\<close> is not written, and the batch ends with the exception.
\<close>

theorem missing_button_aborts_batch:
  "voteMultipleTimes sample_selectors 2 3000 7000 (repeat_iteration button_missing) initial_state =
     (Inl (Error ''TimeoutError''),
      \<lparr>ledger = \<lparr>votes = [], statistics = None\<rparr>,
       trace = [WaitForSelector (button_selector (Some ''101'')),
                Console (ErrorDuringVoting ''TimeoutError'')]\<rparr>)
   \<and> voteMultipleTimes_tb sample_config sample_selectors 2 3000 7000 (repeat_iteration button_missing)
       initial_state =
     (Inl (Error ''TimeoutError''),
      \<lparr>ledger = \<lparr>votes = [], statistics = None\<rparr>,
       trace = [WaitForSelector (button_selector (Some ''101''))]\<rparr>)"
  by (simp add: eval_defs repeat_iteration_def)


text \<open>
  C10. The claim is that for all integers \<open>min \<le> max\<close> the result of \<^verbatim>\<open>randomInterval\<close> is an
  integer \<open>r\<close> with \<open>min \<le> r \<le> max\<close>. It is so in exact arithmetic, but the sum is rounded to
  a double before \<^verbatim>\<open>Math.floor\<close>: for \<^verbatim>\<open>randomInterval(5000, 10000)\<close>, the back-off of
  \<^verbatim>\<open>navigateWithRetry\<close>, and the draw \<open>1 - 2^-52\<close> (\<^verbatim>\<open>0.9999999999999998\<close>), the product rounds to
  \<open>5001 - 2^-40\<close>, the sum \<open>10001 - 2^-40\<close> lies half way between two doubles and rounds to
  \<open>10001\<close>, and the result is \<open>max + 1\<close>. The draw 0 gives \<open>min\<close>.
\<close>

theorem randomInterval_exceeds_max:
  "(0::real) \<le> 1 - 1 / 2 ^ 52 \<and> (1::real) - 1 / 2 ^ 52 < 1
   \<and> randomInterval (1 - 1 / 2 ^ 52) 5000 10000 = 10001
   \<and> randomInterval 0 5000 10000 = 5000"
proof -
  let ?x1 = "(1 - 1 / 2 ^ 52) * 5001 :: real"
  have r1: "round_even (?x1 * 2 ^ 40) = 5001 * 2 ^ 40 - 1"
    by (rule round_even_near) simp
  have "round_double ?x1 = of_int (round_even (?x1 * 2 ^ (52 - 12))) / 2 ^ (52 - 12)"
    by (rule round_double_binade) simp_all
  then have f1: "round_double ?x1 = (5001 * 2 ^ 40 - 1) / 2 ^ 40"
    using r1 by simp
  let ?x2 = "(5001 * 2 ^ 40 - 1) / 2 ^ 40 + 5000 :: real"
  have r2: "round_even (?x2 * 2 ^ 39) = 10001 * 2 ^ 39"
    using round_even_tie [of "?x2 * 2 ^ 39" "10001 * 2 ^ 39 - 1"] by simp
  have "round_double ?x2 = of_int (round_even (?x2 * 2 ^ (52 - 13))) / 2 ^ (52 - 13)"
    by (rule round_double_binade) simp_all
  then have f2: "round_double ?x2 = 10001"
    using r2 by simp
  have "randomInterval (1 - 1 / 2 ^ 52) 5000 10000 =
      \<lfloor>round_double (round_double ?x1 + 5000)\<rfloor>"
    by (simp add: randomInterval_def)
  also have "\<dots> = \<lfloor>round_double ?x2\<rfloor>"
    by (simp only: f1)
  also have "\<dots> = 10001"
    by (simp only: f2) simp
  finally show ?thesis
    by (simp add: randomInterval_samples)
qed

text \<open>
  C3. \<^verbatim>\<open>navigateWithRetry\<close> with \<open>retries = 3\<close> returns \<^verbatim>\<open>true\<close> at the first attempt that succeeds,
  after exactly that many calls of \<^verbatim>\<open>page.goto\<close> (so also when attempts 1 and 2 fail and
  attempt 3 succeeds); when all three attempts fail it has called \<^verbatim>\<open>page.goto\<close> three times, not
  four, and returns \<^verbatim>\<open>false\<close>: the result is a value, no exception leaves the function. It only
  adds to the trace and leaves the ledger alone.
\<close>

theorem navigateWithRetry_three_attempts:
  assumes "navigateWithRetry url 3 timeout ob s = (r, s')"
  shows "\<exists>evs. trace s' = trace s @ evs \<and> ledger s' = ledger s \<and>
      (if goto_result ob 0 = None then r = Some True \<and> attempts evs = 1
       else if goto_result ob 1 = None then r = Some True \<and> attempts evs = 2
       else if goto_result ob 2 = None then r = Some True \<and> attempts evs = 3
       else r = Some False \<and> attempts evs = 3)"
proof -
  have l: "ledger s' = ledger s"
    using navigateWithRetry_loop_ledger [of url 3 timeout ob 0 s] assms
    by (simp add: navigateWithRetry_def)
  have s: "\<exists>evs. trace s' = trace s @ evs \<and> r = Some True \<and> attempts evs = nat (k + 1)"
    if "0 \<le> k" "k < 3" "goto_result ob k = None"
       "\<forall>j. 0 \<le> j \<and> j < k \<longrightarrow> goto_result ob j \<noteq> None" for k
    using navigate_success [OF that(1) that(2) that(3) that(4), of url timeout s] assms
    by (auto simp: navigateWithRetry_def attempts_def)
  consider (a) "goto_result ob 0 = None"
    | (b) "goto_result ob 0 \<noteq> None" "goto_result ob 1 = None"
    | (c) "goto_result ob 0 \<noteq> None" "goto_result ob 1 \<noteq> None" "goto_result ob 2 = None"
    | (d) "goto_result ob 0 \<noteq> None" "goto_result ob 1 \<noteq> None" "goto_result ob 2 \<noteq> None"
    by blast
  then show ?thesis
  proof cases
    case a
    have "\<forall>j. 0 \<le> j \<and> j < 0 \<longrightarrow> goto_result ob j \<noteq> None"
    proof (intro allI impI)
      fix j :: int assume "0 \<le> j \<and> j < 0"
      then have False by linarith
      then show "goto_result ob j \<noteq> None" ..
    qed
    then show ?thesis using s [of 0] a l by auto
  next
    case b
    have "\<forall>j. 0 \<le> j \<and> j < 1 \<longrightarrow> goto_result ob j \<noteq> None"
    proof (intro allI impI)
      fix j :: int assume "0 \<le> j \<and> j < 1"
      then have "j = 0" by linarith
      then show "goto_result ob j \<noteq> None" using b by auto
    qed
    then show ?thesis using s [of 1] b l by auto
  next
    case c
    have "\<forall>j. 0 \<le> j \<and> j < 2 \<longrightarrow> goto_result ob j \<noteq> None"
    proof (intro allI impI)
      fix j :: int assume "0 \<le> j \<and> j < 2"
      then have "j = 0 \<or> j = 1" by linarith
      then show "goto_result ob j \<noteq> None" using c by auto
    qed
    then show ?thesis using s [of 2] c l by auto
  next
    case d
    have "\<forall>j. 0 \<le> j \<and> j < 3 \<longrightarrow> goto_result ob j \<noteq> None"
    proof (intro allI impI)
      fix j :: int assume "0 \<le> j \<and> j < 3"
      then have "j = 0 \<or> j = 1 \<or> j = 2" by linarith
      then show "goto_result ob j \<noteq> None" using d by auto
    qed
    from navigate_failure [OF _ this, of url timeout s] assms
    show ?thesis using d l by (auto simp: navigateWithRetry_def attempts_def)
  qed
qed

theorem navigateWithRetry_three_attempts_witness:
  "navigateWithRetry ''https://example.org/top20'' 3 60000 (sample_nav 2) initial_state =
     (Some True,
      \<lparr>ledger = \<lparr>votes = [], statistics = None\<rparr>,
       trace = [Goto ''https://example.org/top20'' 60000,
                Console (NavigationFailed 1 3 ''net::ERR_TIMED_OUT''),
                Console RetryingAfterDelay, Sleep (Ms 5000),
                Goto ''https://example.org/top20'' 60000,
                Console (NavigationFailed 2 3 ''net::ERR_TIMED_OUT''),
                Console RetryingAfterDelay, Sleep (Ms 5000),
                Goto ''https://example.org/top20'' 60000]\<rparr>)
   \<and> fst (navigateWithRetry ''https://example.org/top20'' 3 60000 (sample_nav 3) initial_state)
       = Some False
   \<and> attempts (trace (snd (navigateWithRetry ''https://example.org/top20'' 3 60000
        (sample_nav 3) initial_state))) = 3"
proof -
  have a: "navigateWithRetry ''https://example.org/top20'' 3 60000 (sample_nav 2) initial_state =
     (Some True,
      \<lparr>ledger = \<lparr>votes = [], statistics = None\<rparr>,
       trace = [Goto ''https://example.org/top20'' 60000,
                Console (NavigationFailed 1 3 ''net::ERR_TIMED_OUT''),
                Console RetryingAfterDelay, Sleep (Ms 5000),
                Goto ''https://example.org/top20'' 60000,
                Console (NavigationFailed 2 3 ''net::ERR_TIMED_OUT''),
                Console RetryingAfterDelay, Sleep (Ms 5000),
                Goto ''https://example.org/top20'' 60000]\<rparr>)"
    by (simp add: nav_eval_defs)
  have b: "fst (navigateWithRetry ''https://example.org/top20'' 3 60000 (sample_nav 3) initial_state)
       = Some False
   \<and> attempts (trace (snd (navigateWithRetry ''https://example.org/top20'' 3 60000
        (sample_nav 3) initial_state))) = 3"
    using navigateWithRetry_three_attempts [OF prod.collapse [symmetric],
        of "''https://example.org/top20''" 60000 "sample_nav 3" initial_state]
    by (simp add: sample_nav_def initial_state_def)
  show ?thesis using a b by simp
qed

text \<open>
  C8. The claim is that for every ledger, with \<open>k\<close> records, the summary that \<^verbatim>\<open>saveVoteLog\<close>
  derives has \<open>totalVotes = k\<close> and per-target counts that are the multiplicities of the
  identifiers and add up to \<open>k\<close>. It is so when no identifier is the name of a property that
  the accumulator \<^verbatim>\<open>{}\<close> inherits (lemma \<open>voteCounts_correct\<close>). For a ledger of three records, two
  of them with the identifier \<^verbatim>\<open>constructor\<close>, in both variants: \<^verbatim>\<open>acc['constructor']\<close> is at first
  the inherited function, which is truthy, \<^verbatim>\<open>+ 1\<close> makes a string of it, and the entry of
  \<open>votesByCandidate\<close> for \<^verbatim>\<open>constructor\<close> is a string and no count; the counts that are there add up
  to 1, not to 3. The record sequence is unchanged and \<open>totalVotes\<close> is 3. This is the ledger
  that is given to \<^verbatim>\<open>fs.writeFileSync\<close>, whatever that call then meets.
\<close>

theorem saveVoteLog_miscounts_inherited_name:
  "ledger (snd (saveVoteLog ''/app'' ''2024-05-01T11:00:00.000Z'' w inherited_name_state)) =
     \<lparr>votes = votes (ledger inherited_name_state),
      statistics = Some \<lparr>totalVotes = 3,
                         votesByCandidate = [(''101'', Number 1), (''constructor'', Other)]\<rparr>\<rparr>
   \<and> ledger (snd (saveVoteLog_tb ''/app'' ''2024-05-01T11:00:00.000Z'' w inherited_name_state)) =
     \<lparr>votes = votes (ledger inherited_name_state),
      statistics = Some \<lparr>totalVotes = 3,
                         votesByCandidate = [(''101'', Number 1), (''constructor'', Other)]\<rparr>\<rparr>
   \<and> occurrences (votes (ledger inherited_name_state)) ''constructor'' = 2"
  by (cases w) (simp_all add: save_eval_defs inherited_name_state_def occurrences_def)




text \<open>
  C7. In one iteration of the outer loop, in both variants: when the session is opened, the
  navigation succeeds, the list appears and the batch returns (no iteration throws), the
  batch size is added to the running total; when the navigation fails, or the wait for the
  list or an iteration of the batch throws, the running total is unchanged, whatever the
  batch had done before. The ledger keeps the records appended before the exception: it is
  the ledger before the iteration followed by the records of the confirmed votes up to the
  first iteration that throws.
\<close>

theorem total_counts_whole_batches_only:
  "fst (main_body CONFIG ob tot s) =
     (case launch ob of
        Some err \<Rightarrow> Inl err
      | None \<Rightarrow>
          Inr (if navigates (nav ob) \<and> top20_wait ob = None
                  \<and> batch_completes (batch ob) (randomInterval (rnd_batch ob) 1 5)
               then tot + randomInterval (rnd_batch ob) 1 5 else tot))
   \<and> votes (ledger (snd (main_body CONFIG ob tot s))) =
       votes (ledger s) @
         (if launch ob = None \<and> navigates (nav ob) \<and> top20_wait ob = None
          then batch_records (selectors CONFIG) voteForMain (batch ob)
                 (randomInterval (rnd_batch ob) 1 5)
          else [])
   \<and> fst (main_body_tb CONFIG ob tot s) =
       (if \<not> isWithinVoteWindow CONFIG (utc_hour ob) then Inr tot
        else case launch ob of
               Some err \<Rightarrow> Inl err
             | None \<Rightarrow>
                 Inr (if navigates (nav ob) \<and> top20_wait ob = None
                         \<and> batch_completes (batch ob) 5
                      then tot + 5 else tot))
   \<and> votes (ledger (snd (main_body_tb CONFIG ob tot s))) =
       votes (ledger s) @
         (if isWithinVoteWindow CONFIG (utc_hour ob) \<and> launch ob = None \<and> navigates (nav ob)
              \<and> top20_wait ob = None
          then batch_records (selectors CONFIG) (voteForMain_tb CONFIG) (batch ob) 5
          else [])"
  using main_body_result main_body_votes main_body_tb_result main_body_tb_votes by blast

theorem total_counts_whole_batches_only_witness:
  "fst (main_body sample_config (sample_session 10 sample_batch) 7 initial_state) = Inr 10
   \<and> fst (main_body sample_config (sample_session 10 failing_batch) 7 initial_state) = Inr 7
   \<and> votes (ledger (snd (main_body sample_config (sample_session 10 failing_batch) 7
        initial_state))) =
       [\<lparr>buttonId = Some ''101'', timestamp = ''2024-05-01T10:00:00.000Z''\<rparr>]
   \<and> fst (main_body_tb sample_config (sample_session 10 sample_batch) 7 initial_state) = Inr 12
   \<and> fst (main_body_tb sample_config (sample_session 10 failing_batch) 7 initial_state) = Inr 7"
proof -
  have n: "randomInterval (1 / 2) 1 5 = 3"
    by (rule randomInterval_samples)
  have nav: "navigates (sample_nav 0)"
    by (simp add: navigates_def sample_nav_def)
  have ok: "batch_completes sample_batch 3" "batch_completes sample_batch 5"
    by (simp_all add: batch_completes_def upto_0_2 upto_0_4 raising_def sample_batch_def
        sample_iteration_def)
  have ko: "\<not> batch_completes failing_batch 3" "\<not> batch_completes failing_batch 5"
    by (simp_all add: batch_completes_def upto_0_2 upto_0_4 raising_def failing_batch_def
        button_missing_def sample_batch_def sample_iteration_def)
  have recs: "batch_records (selectors sample_config) voteForMain failing_batch 3 =
      [\<lparr>buttonId = Some ''101'', timestamp = ''2024-05-01T10:00:00.000Z''\<rparr>]"
    by (simp add: batch_records_def upto_0_2 raising_def confirmed_def record_of_def
        failing_batch_def button_missing_def sample_batch_def sample_iteration_def
        chooseButtonId_main voteForMain_samples sample_config_def sample_selectors_def)
  have w: "isWithinVoteWindow sample_config 10"
    by (simp add: isWithinVoteWindow_def sample_config_def)
  show ?thesis
    using total_counts_whole_batches_only [of sample_config "sample_session 10 sample_batch" 7
        initial_state]
      total_counts_whole_batches_only [of sample_config "sample_session 10 failing_batch" 7
        initial_state]
      n nav ok ko recs w
    by (simp add: sample_session_def initial_state_def)
qed

text \<open>
  C9. In the time-boxed variant, an iteration of the outer loop whose UTC hour is outside
  \<open>[start, end)\<close> opens no browser session: it writes a message, sleeps for the drawn delay and
  ends with the running total and the ledger unchanged, and the loop goes on with the next
  iteration, which reads the clock again. An iteration that launches a browser has
  \<open>start \<le> hour < end\<close>.
\<close>

theorem outside_window_no_session:
  assumes "main_body_tb CONFIG ob tot s = (r, s')"
  shows "(\<not> (window_start (voteWindow CONFIG) \<le> utc_hour ob
             \<and> utc_hour ob < window_end (voteWindow CONFIG)) \<longrightarrow>
            r = Inr tot \<and> ledger s' = ledger s
            \<and> trace s' = trace s @
                [Console OutsideVotingWindow,
                 Sleep (Ms (of_int (randomInterval (rnd_window ob) 60000 120000)))]
            \<and> (tot < maxVotes (voting CONFIG) \<and> sessions k = ob \<longrightarrow>
                  main_loop_tb CONFIG dir stamp w sessions k tot s =
                  main_loop_tb CONFIG dir stamp w sessions (Suc k) tot s'))
       \<and> (LaunchBrowser \<in> set (drop (length (trace s)) (trace s')) \<longrightarrow>
            window_start (voteWindow CONFIG) \<le> utc_hour ob
            \<and> utc_hour ob < window_end (voteWindow CONFIG))"
proof (cases "isWithinVoteWindow CONFIG (utc_hour ob)")
  case True
  then show ?thesis by (simp add: isWithinVoteWindow_def)
next
  case False
  then have out: "\<not> (window_start (voteWindow CONFIG) \<le> utc_hour ob
             \<and> utc_hour ob < window_end (voteWindow CONFIG))"
    by (simp add: isWithinVoteWindow_def)
  have r: "r = Inr tot"
    and s': "s' = emit (Sleep (Ms (of_int (randomInterval (rnd_window ob) 60000 120000))))
                    (emit (Console OutsideVotingWindow) s)"
    using assms False by (simp_all add: main_body_tb_def Let_def)
  have loop: "main_loop_tb CONFIG dir stamp w sessions k tot s =
                  main_loop_tb CONFIG dir stamp w sessions (Suc k) tot s'"
    if "tot < maxVotes (voting CONFIG) \<and> sessions k = ob"
    using that assms r by (subst main_loop_tb.simps) simp
  show ?thesis using out r s' loop by simp
qed

theorem outside_window_no_session_witness:
  "\<not> (window_start (voteWindow sample_config) \<le> 22 \<and> 22 < window_end (voteWindow sample_config))
   \<and> main_body_tb sample_config (sample_session 22 sample_batch) 7 initial_state =
       (Inr 7,
        \<lparr>ledger = \<lparr>votes = [], statistics = None\<rparr>,
         trace = [Console OutsideVotingWindow, Sleep (Ms 60000)]\<rparr>)
   \<and> LaunchBrowser \<notin> set (trace (snd (main_body_tb sample_config
        (sample_session 22 sample_batch) 7 initial_state)))"
proof -
  have out: "\<not> (window_start (voteWindow sample_config) \<le> 22
                \<and> 22 < window_end (voteWindow sample_config))"
    by (simp add: sample_config_def)
  have r: "randomInterval 0 60000 120000 = 60000"
    by (rule randomInterval_samples)
  show ?thesis
    using outside_window_no_session [OF prod.collapse [symmetric],
        of sample_config "sample_session 22 sample_batch" 7 initial_state] out r
    by (simp add: sample_session_def initial_state_def prod_eq_iff)
qed

text \<open>
  C4. As stated the claim fails for \<^verbatim>\<open>index.js\<close>, which reads no configured probability: with
  \<open>mainVotePercentage = 100\<close> in the settings it still votes for an alternative at the draw
  \<open>1/8\<close>. What holds: in the time-boxed variant an iteration chooses the main target exactly
  when the draw is below the double \<open>p\<close> nearest to \<open>mainVotePercentage / 100\<close>; for a percentage
  between 0 and 100 the draws of \<open>[0, 1)\<close> that do so are the interval \<open>[0, p)\<close>, whose length is
  the configured probability up to \<open>2^-53\<close>. Otherwise, in both variants, a draw \<open>u\<close> chooses from
  a list of \<open>n > 0\<close> alternatives the one at an index \<open>j < n\<close>, namely the integer part of the
  product \<open>u * n\<close> rounded to a double, which differs from \<open>u * n\<close> by a relative \<open>2^-53\<close> at
  most: each index is chosen by an interval of draws of the same length \<open>1 / n\<close> up to that
  rounding. In \<^verbatim>\<open>index.js\<close> the choice between the main target and an alternative is the test
  \<open>voteForMain\<close> of the draw alone. The target of an iteration is read off the selector that the
  iteration first waits for.
\<close>

theorem main_target_by_configured_probability_tb:
  "voteMultipleTimes_tb CONFIG sel n minDelay maxDelay obs s =
     voteMultipleTimes_loop sel (voteForMain_tb CONFIG) n minDelay maxDelay obs 0 s
   \<and> (\<exists>evs. trace (snd (vote_iteration sel (voteForMain_tb CONFIG) i minDelay maxDelay ob s)) =
         trace s @
           WaitForSelector (button_selector
             (if rnd_main ob < round_double (mainVotePercentage (voting CONFIG) / 100)
              then Some (mainVoteButtonId sel)
              else chooseButtonId sel False (rnd_alt ob))) # evs)
   \<and> (0 \<le> mainVotePercentage (voting CONFIG) \<and> mainVotePercentage (voting CONFIG) \<le> 100 \<longrightarrow>
        {u. 0 \<le> u \<and> u < 1 \<and> voteForMain_tb CONFIG u} =
          {0 ..< round_double (mainVotePercentage (voting CONFIG) / 100)}
        \<and> round_double (mainVotePercentage (voting CONFIG) / 100) \<le> 1
        \<and> \<bar>round_double (mainVotePercentage (voting CONFIG) / 100)
             - mainVotePercentage (voting CONFIG) / 100\<bar> \<le> 1 / 2 ^ 53)
   \<and> (0 \<le> u \<and> u \<le> 1 - 1 / 2 ^ 53 \<and> alternativeVoteButtonIds sel \<noteq> []
        \<and> length (alternativeVoteButtonIds sel) < 2 ^ 53 \<longrightarrow>
        (\<exists>j < length (alternativeVoteButtonIds sel).
           chooseButtonId sel False u = Some (alternativeVoteButtonIds sel ! j)
         \<and> real j \<le> round_double (u * real (length (alternativeVoteButtonIds sel)))
         \<and> round_double (u * real (length (alternativeVoteButtonIds sel))) < real j + 1)
        \<and> \<bar>round_double (u * real (length (alternativeVoteButtonIds sel)))
             - u * real (length (alternativeVoteButtonIds sel))\<bar>
           \<le> u * real (length (alternativeVoteButtonIds sel)) / 2 ^ 53)
   \<and> (\<exists>evs. trace (snd (vote_iteration sel voteForMain i minDelay maxDelay ob s)) =
         trace s @
           WaitForSelector (button_selector
             (if voteForMain (rnd_main ob) then Some (mainVoteButtonId sel)
              else chooseButtonId sel False (rnd_alt ob))) # evs)"
proof -
  let ?p = "mainVotePercentage (voting CONFIG)"
  let ?n = "real (length (alternativeVoteButtonIds sel))"
  have a: "voteMultipleTimes_tb CONFIG sel n minDelay maxDelay obs s =
     voteMultipleTimes_loop sel (voteForMain_tb CONFIG) n minDelay maxDelay obs 0 s"
    by (simp add: voteMultipleTimes_tb_def)
  have t: "chooseButtonId sel b v =
      (if b then Some (mainVoteButtonId sel) else chooseButtonId sel False v)" for b v
    by (simp add: chooseButtonId_def)
  have b: "\<exists>evs. trace (snd (vote_iteration sel (voteForMain_tb CONFIG) i minDelay maxDelay ob s)) =
         trace s @
           WaitForSelector (button_selector
             (if rnd_main ob < round_double (?p / 100)
              then Some (mainVoteButtonId sel)
              else chooseButtonId sel False (rnd_alt ob))) # evs"
    using vote_iteration_first_event [of sel "voteForMain_tb CONFIG" i minDelay maxDelay ob s]
      t [of "voteForMain_tb CONFIG (rnd_main ob)" "rnd_alt ob"]
    by (simp add: voteForMain_tb_def)
  have c: "{u. 0 \<le> u \<and> u < 1 \<and> voteForMain_tb CONFIG u} = {0 ..< round_double (?p / 100)}
        \<and> round_double (?p / 100) \<le> 1
        \<and> \<bar>round_double (?p / 100) - ?p / 100\<bar> \<le> 1 / 2 ^ 53"
    if "0 \<le> ?p \<and> ?p \<le> 100"
  proof -
    note q = configured_probability [of ?p]
    have "{u. 0 \<le> u \<and> u < 1 \<and> voteForMain_tb CONFIG u} = {0 ..< round_double (?p / 100)}"
      using q(2) that by (auto simp: voteForMain_tb_def)
    then show ?thesis using q(2) q(3) that by blast
  qed
  have d: "(\<exists>j < length (alternativeVoteButtonIds sel).
           chooseButtonId sel False u = Some (alternativeVoteButtonIds sel ! j)
         \<and> real j \<le> round_double (u * ?n) \<and> round_double (u * ?n) < real j + 1)
        \<and> \<bar>round_double (u * ?n) - u * ?n\<bar> \<le> u * ?n / 2 ^ 53"
    if h: "0 \<le> u \<and> u \<le> 1 - 1 / 2 ^ 53 \<and> alternativeVoteButtonIds sel \<noteq> []
        \<and> length (alternativeVoteButtonIds sel) < 2 ^ 53"
  proof -
    have "\<bar>round_double (u * ?n) - u * ?n\<bar> \<le> \<bar>u * ?n\<bar> / 2 ^ 53"
      by (rule round_double_error)
    moreover have "\<bar>u * ?n\<bar> = u * ?n" using h by simp
    ultimately show ?thesis using choose_alternative [of u sel] h by simp
  qed
  have e: "\<exists>evs. trace (snd (vote_iteration sel voteForMain i minDelay maxDelay ob s)) =
         trace s @
           WaitForSelector (button_selector
             (if voteForMain (rnd_main ob) then Some (mainVoteButtonId sel)
              else chooseButtonId sel False (rnd_alt ob))) # evs"
    using vote_iteration_first_event [of sel voteForMain i minDelay maxDelay ob s]
      t [of "voteForMain (rnd_main ob)" "rnd_alt ob"]
    by simp
  show ?thesis using a b c d e by blast
qed

theorem main_target_by_configured_probability_tb_witness:
  "(0::real) \<le> 3 / 4 \<and> (3::real) / 4 \<le> 1 - 1 / 2 ^ 53
   \<and> alternativeVoteButtonIds sample_selectors \<noteq> []
   \<and> length (alternativeVoteButtonIds sample_selectors) < 2 ^ 53
   \<and> chooseButtonId sample_selectors False (3 / 4) = Some ''103''
   \<and> (0::real) \<le> mainVotePercentage (voting sample_config)
   \<and> mainVotePercentage (voting sample_config) \<le> 100
   \<and> {u. 0 \<le> u \<and> u < 1 \<and> voteForMain_tb sample_config u} = {0 ..< 1}
   \<and> (\<exists>evs. trace (snd (vote_iteration sample_selectors (voteForMain_tb sample_config) 0 3000
          7000 (sample_iteration (1 / 8) ''block'') initial_state)) =
        WaitForSelector (button_selector (Some ''101'')) # evs)"
proof -
  have p: "mainVotePercentage (voting sample_config) = 100"
    by (simp add: sample_config_def)
  have c: "chooseButtonId sample_selectors False (3 / 4) = Some ''103''"
    by (rule chooseButtonId_samples(2) [of _ "''102''"]) (simp add: sample_selectors_def)
  have a: "alternativeVoteButtonIds sample_selectors \<noteq> []"
    "length (alternativeVoteButtonIds sample_selectors) < 2 ^ 53"
    by (simp_all add: sample_selectors_def)
  have m: "rnd_main (sample_iteration (1 / 8) ''block'') = 1 / 8"
    "mainVoteButtonId sample_selectors = ''101''"
    by (simp_all add: sample_iteration_def sample_selectors_def)
  show ?thesis
    using main_target_by_configured_probability_tb [of sample_config sample_selectors 1 3000 7000
        "repeat_iteration (sample_iteration (1 / 8) ''block'')" initial_state 0
        "sample_iteration (1 / 8) ''block''" "3 / 4"] p c a m
    by (simp add: initial_state_def)
qed

theorem main_target_ignores_configuration_counterexample:
  "mainVotePercentage (voting sample_config) = 100
   \<and> votes (ledger (snd (voteMultipleTimes (selectors sample_config) 1 3000 7000
        (repeat_iteration (sample_iteration (1 / 8) ''block'')) initial_state))) =
       [\<lparr>buttonId = Some ''103'', timestamp = ''2024-05-01T10:00:00.000Z''\<rparr>]
   \<and> votes (ledger (snd (voteMultipleTimes_tb sample_config (selectors sample_config) 1 3000 7000
        (repeat_iteration (sample_iteration (1 / 8) ''block'')) initial_state))) =
       [\<lparr>buttonId = Some ''101'', timestamp = ''2024-05-01T10:00:00.000Z''\<rparr>]"
  by (simp add: eval_defs repeat_iteration_def)

end
